theory Spec2Isabelle
  imports
    Main
    "HOL-Library.Word"
    "HOL-Library.Signed_Division"
    "HOL-Library.Log_Nat"
    "HOL-Library.Monad_Syntax"
begin

section \<open>Entry-M temperature and humidity monitor: the serial command layer\<close>

text \<open>
  A shallow embedding of \<^verbatim>\<open>Entry-M_DHT.ino\<close> (the first sketch of the file, the one whose
  \<^verbatim>\<open>loop\<close> calls \<^verbatim>\<open>UpdateTemperature\<close>, \<^verbatim>\<open>UpdateHumidity\<close> and \<^verbatim>\<open>UpdateScreen\<close>;
  \<^verbatim>\<open>ShowTemperature\<close> and \<^verbatim>\<open>ShowHumidity\<close>, which it never calls, are left out).
  An \<^verbatim>\<open>unsigned char\<close> or \<^verbatim>\<open>byte\<close> is an 8-bit word, an \<^verbatim>\<open>unsigned long\<close> a
  32-bit word, an \<^verbatim>\<open>int\<close> a mathematical integer kept inside the 16-bit range of the
  AVR boards wherever a conversion could leave it.
\<close>

type_synonym byte = "8 word"

definition ACK :: byte where
  "ACK = 0x06"

definition NAK :: byte where
  "NAK = 0x15"

definition MIN_READ_PERIOD :: nat where
  "MIN_READ_PERIOD = 2000"

definition byte_of_char :: "char \<Rightarrow> byte" where
  "byte_of_char c = of_char c"

subsection \<open>CheckSum\<close>

text \<open>
  \<^verbatim>\<open>byte CheckSum(const char* data, int count)\<close> adds \<^verbatim>\<open>data[i]\<close> to the byte
  \<^verbatim>\<open>BCC\<close> for \<^verbatim>\<open>i = 0 .. count-1\<close>. The operand \<^verbatim>\<open>data[i]\<close> is a (signed)
  \<^verbatim>\<open>char\<close>: \<^verbatim>\<open>BCC += data[i]\<close> promotes both sides to \<^verbatim>\<open>int\<close>, adds, and
  truncates the sum to 8 bits. A read beyond the buffer is undefined in C; the model
  reads \<open>data ! i\<close> there, and every statement below keeps \<open>count\<close> inside the buffer.
\<close>

definition add_char :: "byte \<Rightarrow> byte \<Rightarrow> byte" where
  "add_char BCC c = word_of_int (uint BCC + sint c)"

function CheckSum_loop :: "byte list \<Rightarrow> int \<Rightarrow> int \<Rightarrow> byte \<Rightarrow> byte" where
  "CheckSum_loop data count i BCC =
     (if i < count then CheckSum_loop data count (i + 1) (add_char BCC (data ! nat i))
      else BCC)"
  by pat_completeness auto
termination
  by (relation "measure (\<lambda>(data, count, i, BCC). nat (count - i))") auto

declare CheckSum_loop.simps [simp del]

definition CheckSum :: "byte list \<Rightarrow> int \<Rightarrow> byte" where
  "CheckSum data count = CheckSum_loop data count 0 0"

subsection \<open>The \<^verbatim>\<open>float\<close> arguments\<close>

text \<open>
  A \<^verbatim>\<open>float\<close> is not-a-number or a finite value, kept as the rational it denotes
  (infinities are left out: the sensor library returns a reading or NaN). The only
  arithmetic the sketch does on a float is \<^verbatim>\<open>deg * 10\<close>, whose exact product is rounded
  to the nearest number with a 24-bit significand, ties to the even significand, as IEEE 754
  single precision does (the exponent range is not bounded here); \<open>float_of_rat\<close> reads a
  decimal literal the same way. \<open>ilog2 x\<close> is the exponent of the leading bit of a positive
  \<open>x\<close>.

  \<^verbatim>\<open>(int)x\<close> truncates towards zero. The conversion of a NaN, or of a value whose integer
  part does not fit the 16-bit \<^verbatim>\<open>int\<close>, is undefined in C: \<open>int_of_float\<close> is \<open>None\<close>
  there.
\<close>

datatype float = NaN | Finite rat

fun isnan :: "float \<Rightarrow> bool" where
  "isnan NaN = True"
| "isnan (Finite r) = False"

definition round_to_even :: "rat \<Rightarrow> int" where
  "round_to_even y =
     (let f = \<lfloor>y\<rfloor>; d = y - of_int f
      in if d < 1 / 2 then f else if 1 / 2 < d then f + 1 else if even f then f else f + 1)"

definition ilog2 :: "rat \<Rightarrow> int" where
  "ilog2 x =
     (let k = bitlen (fst (quotient_of x)) - bitlen (snd (quotient_of x))
      in if 2 powi k \<le> x then k else k - 1)"

definition round_single :: "rat \<Rightarrow> rat" where
  "round_single x =
     (if x = 0 then 0
      else let e = ilog2 \<bar>x\<bar> - 23
           in sgn x * of_int (round_to_even (\<bar>x\<bar> * 2 powi (- e))) * 2 powi e)"

definition float_of_rat :: "rat \<Rightarrow> float" where
  "float_of_rat r = Finite (round_single r)"

definition fmul :: "float \<Rightarrow> float \<Rightarrow> float" where
  "fmul x y =
     (case x of NaN \<Rightarrow> NaN
      | Finite a \<Rightarrow> (case y of NaN \<Rightarrow> NaN | Finite b \<Rightarrow> Finite (round_single (a * b))))"

definition int_of_float :: "float \<Rightarrow> int option" where
  "int_of_float x =
     (case x of NaN \<Rightarrow> None
      | Finite r \<Rightarrow>
          (let t = (if 0 \<le> r then \<lfloor>r\<rfloor> else - \<lfloor>- r\<rfloor>)
           in if - 32768 \<le> t \<and> t \<le> 32767 then Some t else None))"

subsection \<open>The board: serial port, clock and static buffers\<close>

text \<open>
  The state of the board, as far as the sketch can see it:
  \<^item> \<open>clock\<close>: the milliseconds spent in \<^verbatim>\<open>delay\<close> so far (instructions, reads and
    writes take no time);
  \<^item> \<open>rx\<close>: the bytes received and not yet read (the capacity of the receive buffer is
    not modelled);
  \<^item> \<open>incoming\<close>: what the device will send: the bytes that arrive during the next
    millisecond, during the one after, and so on; nothing arrives after the list (a call
    that waits at most \<open>n\<close> milliseconds sees the first \<open>n\<close> entries only);
  \<^item> \<open>trace\<close>: a log of the calls the sketch makes to the board (\<^verbatim>\<open>Serial.write\<close>,
    \<^verbatim>\<open>delay\<close>, \<^verbatim>\<open>Serial.available\<close>, \<^verbatim>\<open>Serial.read\<close>) and of every entry
    into \<^verbatim>\<open>WaitResponse\<close> with its arguments; it is only written, never read, by the
    model of the sketch;
  \<^item> the two \<^verbatim>\<open>static unsigned char XXX[]\<close> buffers that are patched in place,
    those of \<^verbatim>\<open>UpdateTemperature\<close> and \<^verbatim>\<open>UpdateHumidity\<close>. They keep their
    contents from one call to the next.
\<close>

datatype event =
    Write byte
  | Delay nat
  | Available bool
  | Read byte
  | Enter_WaitResponse "32 word" "32 word"

record machine =
  clock :: nat
  rx :: "byte list"
  incoming :: "byte list list"
  trace :: "event list"
  UpdateTemperature_XXX :: "byte list"
  UpdateHumidity_XXX :: "byte list"

definition delay :: "nat \<Rightarrow> machine \<Rightarrow> machine" where
  "delay ms s =
     s\<lparr>clock := clock s + ms,
       rx := rx s @ concat (take ms (incoming s)),
       incoming := drop ms (incoming s),
       trace := trace s @ [Delay ms]\<rparr>"

definition Serial_available :: "machine \<Rightarrow> bool \<times> machine" where
  "Serial_available s = (rx s \<noteq> [], s\<lparr>trace := trace s @ [Available (rx s \<noteq> [])]\<rparr>)"

text \<open>\<^verbatim>\<open>Serial.read()\<close> returns -1 on an empty buffer, which an \<^verbatim>\<open>unsigned char\<close> keeps as 255.\<close>

definition Serial_read :: "machine \<Rightarrow> byte \<times> machine" where
  "Serial_read s =
     (case rx s of
        [] \<Rightarrow> (0xFF, s\<lparr>trace := trace s @ [Read 0xFF]\<rparr>)
      | b # bs \<Rightarrow> (b, s\<lparr>rx := bs, trace := trace s @ [Read b]\<rparr>))"

definition Serial_write :: "byte \<Rightarrow> machine \<Rightarrow> machine" where
  "Serial_write b s = s\<lparr>trace := trace s @ [Write b]\<rparr>"

subsection \<open>WaitResponse\<close>

text \<open>
  The \<^verbatim>\<open>while\<close> loop of \<^verbatim>\<open>WaitResponse\<close>, with its three variables \<^verbatim>\<open>maxWaitTime\<close>,
  \<^verbatim>\<open>ret\<close> and \<^verbatim>\<open>timer\<close>. With \<^verbatim>\<open>maxWaitTime == 0\<close> the loop may run forever, so it
  is a partial function: \<open>None\<close> is the call that never returns. \<^verbatim>\<open>timer++\<close> is 32-bit
  addition.
\<close>

partial_function (option) WaitResponse_loop ::
  "32 word \<Rightarrow> byte \<Rightarrow> 32 word \<Rightarrow> machine \<Rightarrow> (byte \<times> machine) option" where
  "WaitResponse_loop maxWaitTime ret timer s =
     (if ret = 0 \<and> (timer < maxWaitTime \<or> maxWaitTime = 0) then
        (case Serial_available s of
           (avail, s1) \<Rightarrow>
             if avail then
               (case Serial_read s1 of
                  (b, s2) \<Rightarrow>
                    if b = ACK \<or> b = NAK then Some (b, s2)
                    else WaitResponse_loop maxWaitTime b timer s2)
             else WaitResponse_loop maxWaitTime ret (timer + 1) (delay 1 s1))
      else Some (ret, s))"

declare WaitResponse_loop.simps [code]

definition WaitResponse :: "32 word \<Rightarrow> 32 word \<Rightarrow> machine \<Rightarrow> (byte \<times> machine) option" where
  "WaitResponse minWaitTime maxWaitTime s =
     (let s0 = s\<lparr>trace := trace s @ [Enter_WaitResponse minWaitTime maxWaitTime]\<rparr>;
          s1 = (if 0 < minWaitTime then delay (unat minWaitTime) s0 else s0)
      in WaitResponse_loop maxWaitTime 0 0 s1)"

subsection \<open>WriteCommand\<close>

function WriteCommand_loop :: "byte list \<Rightarrow> int \<Rightarrow> int \<Rightarrow> machine \<Rightarrow> machine" where
  "WriteCommand_loop data count i s =
     (if i < count then WriteCommand_loop data count (i + 1) (Serial_write (data ! nat i) s)
      else s)"
  by pat_completeness auto
termination
  by (relation "measure (\<lambda>(data, count, i, s). nat (count - i))") auto

declare WriteCommand_loop.simps [simp del]

definition WriteCommand :: "byte list \<Rightarrow> int \<Rightarrow> machine \<Rightarrow> machine" where
  "WriteCommand data count s = WriteCommand_loop data count 0 s"

subsection \<open>The command frames\<close>

text \<open>
  The initialisers of the \<^verbatim>\<open>static unsigned char XXX[]\<close> arrays, byte for byte. The arrays
  of \<^verbatim>\<open>UpdateScreen\<close>, \<^verbatim>\<open>ClearTemperature\<close> and \<^verbatim>\<open>ClearHumidity\<close> are never
  written, so they are constants here; the other two start the board's state.
\<close>

definition UpdateScreen_XXX :: "byte list" where
  "UpdateScreen_XXX =
     [0x01, 0x14, 0x02, 0x04, 0x31, 0x03, 0x00, 0x00, 0x00, 0x00, 0x00, 0xFF, 0xFF, 0xFF,
      0xFF, 0xFF, 0xFF, 0x0A, 0x53, 0x0D]"

definition UpdateTemperature_XXX_init :: "byte list" where
  "UpdateTemperature_XXX_init =
     [0x01, 0x21, 0x02, 0x04, 0x31, 0x10, 0x00, 0x00, 0x87, 0x00, 0x50, 0xFF, 0xFF, 0xFF,
      0x00, 0x00, 0x00,
      byte_of_char CHR ''T'', byte_of_char CHR ''e'', byte_of_char CHR ''m'',
      byte_of_char CHR ''p'', byte_of_char CHR '':'', byte_of_char CHR '' '',
      byte_of_char CHR ''0'', byte_of_char CHR ''0'', byte_of_char CHR ''.'',
      byte_of_char CHR ''0'', byte_of_char CHR '' '', byte_of_char CHR ''c'',
      byte_of_char CHR '' '', 0x0A, 0x98, 0x0D]"

definition ClearTemperature_XXX :: "byte list" where
  "ClearTemperature_XXX =
     [0x01, 0x10, 0x02, 0x04, 0x41, 0x00, 0x87, 0x00, 0x50, 0x01, 0xDB, 0x01, 0x10, 0x0A,
      0x26, 0x0D]"

definition UpdateHumidity_XXX_init :: "byte list" where
  "UpdateHumidity_XXX_init =
     [0x01, 0x1E, 0x02, 0x04, 0x31, 0x10, 0x00, 0x00, 0x9A, 0x00, 0x8C, 0xFF, 0xFF, 0xFF,
      0x00, 0x00, 0x00,
      byte_of_char CHR ''H'', byte_of_char CHR ''u'', byte_of_char CHR ''m'',
      byte_of_char CHR '':'', byte_of_char CHR '' '', byte_of_char CHR ''0'',
      byte_of_char CHR ''0'', byte_of_char CHR '' '', byte_of_char CHR ''%'',
      byte_of_char CHR '' '', 0x0A, 0xDC, 0x0D]"

definition ClearHumidity_XXX :: "byte list" where
  "ClearHumidity_XXX =
     [0x01, 0x10, 0x02, 0x04, 0x41, 0x00, 0x9A, 0x00, 0x8C, 0x01, 0xDB, 0x00, 0xB4, 0x0A,
      0x18, 0x0D]"

definition power_on :: "byte list list \<Rightarrow> machine" where
  "power_on arriving =
     \<lparr>clock = 0, rx = [], incoming = arriving, trace = [],
      UpdateTemperature_XXX = UpdateTemperature_XXX_init,
      UpdateHumidity_XXX = UpdateHumidity_XXX_init\<rparr>"

subsection \<open>The display operations and the poll loop\<close>

text \<open>
  Each operation returns the board's new state, or \<open>None\<close> when it has no defined
  result: a \<^verbatim>\<open>WaitResponse\<close> that never returns, or a float that \<^verbatim>\<open>(int)\<close> cannot
  convert. The value \<^verbatim>\<open>WaitResponse\<close> returns is dropped, as in the sketch.
  \<open>UpdateTemperature_patch\<close> and \<open>UpdateHumidity_patch\<close> are the lines of
  \<^verbatim>\<open>UpdateTemperature\<close> and \<^verbatim>\<open>UpdateHumidity\<close> that write the digits and the
  checksum into \<^verbatim>\<open>XXX\<close>; C's \<^verbatim>\<open>/\<close> and \<^verbatim>\<open>%\<close> truncate towards zero
  (\<open>sdiv\<close>, \<open>smod\<close>), and the assignment to an \<^verbatim>\<open>unsigned char\<close> keeps the low 8 bits.

  \<open>loop h t\<close> is one run of \<^verbatim>\<open>loop()\<close> in which \<^verbatim>\<open>dht.readHumidity()\<close> returns
  \<open>h\<close> and \<^verbatim>\<open>dht.readTemperature()\<close> returns \<open>t\<close>. \<^verbatim>\<open>Serial.println\<close> writes the
  text, a carriage return and a line feed.
\<close>

definition UpdateScreen :: "machine \<Rightarrow> machine option" where
  "UpdateScreen s = map_option snd (WaitResponse 100 500 (WriteCommand UpdateScreen_XXX 20 s))"

definition ClearTemperature :: "machine \<Rightarrow> machine option" where
  "ClearTemperature s =
     map_option snd (WaitResponse 100 500 (WriteCommand ClearTemperature_XXX 16 s))"

definition UpdateTemperature_patch :: "float \<Rightarrow> byte list \<Rightarrow> byte list option" where
  "UpdateTemperature_patch deg XXX =
     do {
       tenths \<leftarrow> int_of_float (fmul deg (Finite 10));
       whole \<leftarrow> int_of_float deg;
       let XXX = XXX[26 := word_of_int (tenths smod 10 + of_char CHR ''0'')];
       let XXX = XXX[24 := word_of_int (whole smod 10 + of_char CHR ''0'')];
       let XXX = XXX[23 := word_of_int ((whole sdiv 10) smod 10 + of_char CHR ''0'')];
       let XXX = (if XXX ! 23 = byte_of_char CHR ''0''
                  then XXX[23 := byte_of_char CHR '' ''] else XXX);
       let XXX = XXX[31 := CheckSum XXX (33 - 2)];
       Some XXX
     }"

definition UpdateTemperature :: "float \<Rightarrow> machine \<Rightarrow> machine option" where
  "UpdateTemperature deg s =
     do {
       s \<leftarrow> ClearTemperature s;
       XXX \<leftarrow> UpdateTemperature_patch deg (UpdateTemperature_XXX s);
       let s = s\<lparr>UpdateTemperature_XXX := XXX\<rparr>;
       map_option snd (WaitResponse 100 500 (WriteCommand XXX 33 s))
     }"

definition ClearHumidity :: "machine \<Rightarrow> machine option" where
  "ClearHumidity s =
     map_option snd (WaitResponse 100 500 (WriteCommand ClearHumidity_XXX 16 s))"

definition UpdateHumidity_patch :: "float \<Rightarrow> byte list \<Rightarrow> byte list option" where
  "UpdateHumidity_patch hum XXX =
     do {
       whole \<leftarrow> int_of_float hum;
       let XXX = XXX[23 := word_of_int (whole smod 10 + of_char CHR ''0'')];
       let XXX = XXX[22 := word_of_int ((whole sdiv 10) smod 10 + of_char CHR ''0'')];
       let XXX = (if XXX ! 22 = byte_of_char CHR ''0''
                  then XXX[22 := byte_of_char CHR '' ''] else XXX);
       let XXX = XXX[28 := CheckSum XXX (30 - 2)];
       Some XXX
     }"

definition UpdateHumidity :: "float \<Rightarrow> machine \<Rightarrow> machine option" where
  "UpdateHumidity hum s =
     do {
       s \<leftarrow> ClearHumidity s;
       XXX \<leftarrow> UpdateHumidity_patch hum (UpdateHumidity_XXX s);
       let s = s\<lparr>UpdateHumidity_XXX := XXX\<rparr>;
       map_option snd (WaitResponse 100 500 (WriteCommand XXX 30 s))
     }"

definition Serial_println :: "string \<Rightarrow> machine \<Rightarrow> machine" where
  "Serial_println str s =
     foldl (\<lambda>s c. Serial_write (byte_of_char c) s) s (str @ [CHR 0x0D, CHR 0x0A])"

definition loop :: "float \<Rightarrow> float \<Rightarrow> machine \<Rightarrow> machine option" where
  "loop h t s =
     (let s = delay MIN_READ_PERIOD s
      in if isnan h \<or> isnan t
         then Some (Serial_println ''Failed to read from DHT sensor!'' s)
         else do {
           s \<leftarrow> UpdateTemperature t s;
           s \<leftarrow> UpdateHumidity h s;
           UpdateScreen s
         })"

subsection \<open>Observing a run\<close>

text \<open>
  What the statements below read off a trace and a state:
  \<^item> \<open>sent\<close>: the bytes written to the serial port, in order;
  \<^item> \<open>protocol\<close>: the bytes written and the entries into \<^verbatim>\<open>WaitResponse\<close>, in order;
  \<^item> \<open>polling\<close>: a stretch of trace that holds nothing but polls of the port, reads and
    one-millisecond delays;
  \<^item> \<open>silent\<close>: no byte is waiting and none will arrive;
  \<^item> \<open>checksum_ok\<close>: the byte at offset length - 2 is the sum of the bytes before it,
    mod 256;
  \<^item> \<open>temperature_frame\<close>, \<open>humidity_frame\<close>: the two draw frames with the patched bytes
    (digits and checksum) as parameters, and \<open>buffers_ok\<close>: each static buffer is its
    initialiser up to the patched bytes, as it is at power-on and after every call;
  \<^item> \<open>blank_zero\<close>: the character \<^verbatim>\<open>'0'\<close> replaced by a space.
\<close>

primrec sent :: "event list \<Rightarrow> byte list" where
  "sent [] = []"
| "sent (e # es) = (case e of Write b \<Rightarrow> b # sent es | _ \<Rightarrow> sent es)"

primrec polling :: "event list \<Rightarrow> bool" where
  "polling [] = True"
| "polling (e # es) =
     ((case e of Available a \<Rightarrow> True | Read b \<Rightarrow> True | Delay n \<Rightarrow> n = 1
       | _ \<Rightarrow> False) \<and>
      polling es)"

primrec protocol :: "event list \<Rightarrow> event list" where
  "protocol [] = []"
| "protocol (e # es) =
     (case e of Write b \<Rightarrow> e # protocol es
      | Enter_WaitResponse a b \<Rightarrow> e # protocol es
      | _ \<Rightarrow> protocol es)"

definition silent :: "machine \<Rightarrow> bool" where
  "silent s = (rx s = [] \<and> concat (incoming s) = [])"

definition temperature_frame :: "byte \<Rightarrow> byte \<Rightarrow> byte \<Rightarrow> byte \<Rightarrow> byte list" where
  "temperature_frame tens ones tenths bcc =
     [0x01, 0x21, 0x02, 0x04, 0x31, 0x10, 0x00, 0x00, 0x87, 0x00, 0x50, 0xFF, 0xFF, 0xFF,
      0x00, 0x00, 0x00, 0x54, 0x65, 0x6D, 0x70, 0x3A, 0x20, tens, ones, 0x2E, tenths,
      0x20, 0x63, 0x20, 0x0A, bcc, 0x0D]"

definition buffers_ok :: "machine \<Rightarrow> bool" where
  "buffers_ok s =
     ((UpdateTemperature_XXX s)[23 := 0x30, 24 := 0x30, 26 := 0x30, 31 := 0x98]
        = UpdateTemperature_XXX_init \<and>
      (UpdateHumidity_XXX s)[22 := 0x30, 23 := 0x30, 28 := 0xDC] = UpdateHumidity_XXX_init)"

definition humidity_frame :: "byte \<Rightarrow> byte \<Rightarrow> byte \<Rightarrow> byte list" where
  "humidity_frame tens ones bcc =
     [0x01, 0x1E, 0x02, 0x04, 0x31, 0x10, 0x00, 0x00, 0x9A, 0x00, 0x8C, 0xFF, 0xFF, 0xFF,
      0x00, 0x00, 0x00, 0x48, 0x75, 0x6D, 0x3A, 0x20, tens, ones, 0x20, 0x25, 0x20, 0x0A,
      bcc, 0x0D]"

definition checksum_ok :: "byte list \<Rightarrow> bool" where
  "checksum_ok frame =
     (2 \<le> length frame \<and>
      unat (frame ! (length frame - 2))
        = sum_list (map unat (take (length frame - 2) frame)) mod 256)"

definition blank_zero :: "byte \<Rightarrow> byte" where
  "blank_zero d = (if d = 0x30 then 0x20 else d)"

section \<open>Properties\<close>

subsection \<open>The checksum engine\<close>

lemma add_char_plus: "add_char BCC c = BCC + c"
  by (simp add: add_char_def)

lemma CheckSum_loop_sum:
  "0 \<le> i \<Longrightarrow> count \<le> int (length data) \<Longrightarrow>
   CheckSum_loop data count i BCC = BCC + sum_list (drop (nat i) (take (nat count) data))"
proof (induction data count i BCC rule: CheckSum_loop.induct)
  case (1 data count i BCC)
  show ?case
  proof (cases "i < count")
    case True
    with "1.prems" have lt: "nat i < length (take (nat count) data)"
      by simp
    have nxt: "nat (i + 1) = Suc (nat i)"
      using "1.prems" by simp
    have "drop (nat i) (take (nat count) data)
            = take (nat count) data ! nat i # drop (nat (i + 1)) (take (nat count) data)"
      using Cons_nth_drop_Suc [OF lt] nxt by simp
    moreover have "take (nat count) data ! nat i = data ! nat i"
      using True "1.prems" by simp
    moreover have "CheckSum_loop data count (i + 1) (add_char BCC (data ! nat i))
            = add_char BCC (data ! nat i) + sum_list (drop (nat (i + 1)) (take (nat count) data))"
      using "1.IH" [OF True] "1.prems" by simp
    ultimately show ?thesis
      using True by (subst CheckSum_loop.simps) (simp add: add_char_plus add.assoc)
  next
    case False
    with "1.prems" have "drop (nat i) (take (nat count) data) = []"
      by simp
    with False show ?thesis
      by (subst CheckSum_loop.simps) simp
  qed
qed

lemma CheckSum_sum:
  "count \<le> int (length data) \<Longrightarrow> CheckSum data count = sum_list (take (nat count) data)"
proof (cases "0 \<le> count")
  case True
  assume "count \<le> int (length data)"
  then show ?thesis
    by (simp add: CheckSum_def CheckSum_loop_sum)
next
  case False
  then show ?thesis
    by (simp add: CheckSum_def CheckSum_loop.simps)
qed

lemma unat_sum_list_byte:
  "unat (sum_list xs :: byte) = sum_list (map unat xs) mod 256"
proof (induction xs)
  case Nil
  show ?case by simp
next
  case (Cons x xs)
  have "unat (x + sum_list xs) = (unat x + unat (sum_list xs)) mod 256"
    by (simp add: unat_word_ariths)
  also have "\<dots> = (unat x + sum_list (map unat xs) mod 256) mod 256"
    by (simp only: Cons.IH)
  also have "\<dots> = (unat x + sum_list (map unat xs)) mod 256"
    by (simp add: mod_add_right_eq)
  finally show ?case by simp
qed

text \<open>
  Claim C2. For every byte sequence and every count within its bounds,
  \<^verbatim>\<open>CheckSum(data, count)\<close> is the sum of \<^verbatim>\<open>data[0..count)\<close> reduced mod 256
  (8-bit wrap-around, no saturation), and two buffers that agree on the first \<open>count\<close>
  bytes have the same checksum: no byte at an index from \<open>count\<close> on is looked at.
\<close>

theorem CheckSum_is_sum_mod_256:
  "count \<le> int (length data) \<longrightarrow>
     unat (CheckSum data count) = sum_list (map unat (take (nat count) data)) mod 256 \<and>
     (\<forall>data'. count \<le> int (length data') \<and> take (nat count) data' = take (nat count) data
        \<longrightarrow> CheckSum data' count = CheckSum data count)"
  by (simp add: CheckSum_sum unat_sum_list_byte)

lemma CheckSum_example_1: "CheckSum [200, 100, 7, 9] 3 = 51"
  by (simp add: CheckSum_def CheckSum_loop.simps add_char_plus)

lemma CheckSum_example_2: "CheckSum [200, 100, 7, 250, 1] 3 = 51"
  by (simp add: CheckSum_def CheckSum_loop.simps add_char_plus)

theorem CheckSum_is_sum_mod_256_witness:
  "(3::int) \<le> int (length [200, 100, 7, 9 :: byte]) \<and>
   unat (CheckSum [200, 100, 7, 9] 3) = sum_list (map unat (take (nat 3) [200, 100, 7, 9 :: byte])) mod 256 \<and>
   3 \<le> int (length [200, 100, 7, 250, 1 :: byte]) \<and>
   take (nat 3) [200, 100, 7, 250, 1 :: byte] = take (nat 3) [200, 100, 7, 9] \<and>
   CheckSum [200, 100, 7, 250, 1] 3 = CheckSum [200, 100, 7, 9] 3"
  using CheckSum_is_sum_mod_256 [of 3 "[200, 100, 7, 9]"]
  by (simp add: CheckSum_example_1 CheckSum_example_2)

subsection \<open>Rounding to single precision\<close>

lemma round_to_even_nonneg: "0 \<le> y \<Longrightarrow> 0 \<le> round_to_even y"
  by (auto simp: round_to_even_def Let_def)

lemma round_to_even_le: "of_int (round_to_even y) \<le> y + 1"
proof -
  have "round_to_even y \<le> \<lfloor>y\<rfloor> + 1"
    by (simp add: round_to_even_def Let_def)
  then have "(of_int (round_to_even y) :: rat) \<le> of_int (\<lfloor>y\<rfloor> + 1)"
    by (simp only: of_int_le_iff)
  also have "\<dots> \<le> y + 1"
    by simp
  finally show ?thesis .
qed

lemma round_single_nonneg: "0 \<le> x \<Longrightarrow> 0 \<le> round_single x"
  by (auto simp: round_single_def Let_def round_to_even_nonneg intro!: mult_nonneg_nonneg)

lemma ilog2_le:
  assumes "0 < x"
  shows "2 powi (ilog2 x) \<le> x"
proof -
  obtain p q where pq: "quotient_of x = (p, q)"
    by (cases "quotient_of x")
  have q: "0 < q" using pq by (rule quotient_of_denom_pos)
  have x: "x = of_int p / of_int q" using pq by (rule quotient_of_div)
  have p: "0 < p" using assms q x by (simp add: zero_less_divide_iff)
  define a where "a = floorlog 2 (nat p)"
  define b where "b = floorlog 2 (nat q)"
  have pa: "2 ^ (a - 1) \<le> nat p" 
    using floorlog_bounds [of "nat p" 2] p by (simp add: a_def)
  have qb: "nat q < 2 ^ b"
    using floorlog_bounds [of "nat q" 2] q by (simp add: b_def)
  have a1: "1 \<le> a"
    using p by (simp add: a_def floorlog_def)
  have ab: "int a - int b - 1 = int (a - 1) - int b"
    using a1 by simp
  have pw: "(2::rat) powi (int a - int b - 1) = 2 ^ (a - 1) / 2 ^ b"
    unfolding ab by (simp add: power_int_diff)
  have "(2::rat) ^ (a - 1) \<le> of_int p"
  proof -
    have "(of_nat (2 ^ (a - 1)) :: rat) \<le> of_nat (nat p)"
      using pa by (simp only: of_nat_le_iff)
    then show ?thesis using p by simp
  qed
  moreover have "(of_int q :: rat) \<le> 2 ^ b"
  proof -
    have "(of_nat (nat q) :: rat) \<le> of_nat (2 ^ b)"
      using qb by (simp only: of_nat_le_iff less_imp_le)
    then show ?thesis using q by simp
  qed
  ultimately have low: "(2::rat) ^ (a - 1) / 2 ^ b \<le> of_int p / of_int q"
    using p q by (intro frac_le) simp_all
  show ?thesis
  proof (cases "2 powi (int a - int b) \<le> x")
    case True
    then show ?thesis
      by (simp add: ilog2_def pq a_def b_def bitlen_def)
  next
    case False
    then have "ilog2 x = int a - int b - 1"
      by (simp add: ilog2_def pq a_def b_def bitlen_def)
    then show ?thesis
      using low pw x by simp
  qed
qed

lemma ilog2_upper:
  assumes "0 < x" "x < 2 ^ n"
  shows "ilog2 x < int n"
proof (rule ccontr)
  assume "\<not> ilog2 x < int n"
  then have "int n \<le> ilog2 x" by simp
  then have "(2::rat) powi (int n) \<le> 2 powi (ilog2 x)"
    by (intro power_int_increasing) simp_all
  then have "(2::rat) ^ n \<le> x"
    using ilog2_le [OF assms(1)] by simp
  then show False using assms(2) by simp
qed

lemma round_single_upper:
  assumes "0 < x" "x < 2 ^ n"
  shows "round_single x \<le> x + 2 powi (int n - 24)"
proof -
  define e where "e = ilog2 x - 23"
  have e: "e \<le> int n - 24"
    using ilog2_upper [OF assms] by (simp add: e_def)
  have rs: "round_single x = of_int (round_to_even (x * 2 powi (- e))) * 2 powi e"
    using assms(1) by (simp add: round_single_def e_def Let_def)
  have "of_int (round_to_even (x * 2 powi (- e))) * (2::rat) powi e
          \<le> (x * 2 powi (- e) + 1) * 2 powi e"
    by (intro mult_right_mono round_to_even_le) simp
  also have "\<dots> = x + 2 powi e"
    by (simp add: algebra_simps power_int_minus)
  also have "\<dots> \<le> x + 2 powi (int n - 24)"
    using e by (simp add: power_int_increasing)
  finally show ?thesis
    by (simp add: rs)
qed

lemma round_single_below_1000:
  assumes "0 \<le> x" "x < 1000"
  shows "0 \<le> round_single x \<and> round_single x < 1001"
proof (cases "x = 0")
  case True
  then show ?thesis by (simp add: round_single_def)
next
  case False
  with assms have pos: "0 < x" by simp
  have "x < 2 ^ 10" using assms(2) by simp
  from round_single_upper [OF pos this]
  have "round_single x \<le> x + 2 powi (- 14)" by simp
  also have "\<dots> < 1001"
    using assms(2) by (simp add: power_int_minus)
  finally show ?thesis
    using round_single_nonneg [OF assms(1)] by simp
qed

subsection \<open>Traces and WriteCommand\<close>

lemma sent_append [simp]: "sent (xs @ ys) = sent xs @ sent ys"
  by (induction xs) (auto split: event.splits)

lemma sent_map_Write [simp]: "sent (map Write bs) = bs"
  by (induction bs) auto

lemma protocol_append [simp]: "protocol (xs @ ys) = protocol xs @ protocol ys"
  by (induction xs) (auto split: event.splits)

lemma protocol_map_Write [simp]: "protocol (map Write bs) = map Write bs"
  by (induction bs) auto

lemma polling_append [simp]: "polling (xs @ ys) = (polling xs \<and> polling ys)"
  by (induction xs) auto

lemma polling_sent [simp]: "polling t \<Longrightarrow> sent t = []"
  by (induction t) (auto split: event.splits)

lemma polling_protocol [simp]: "polling t \<Longrightarrow> protocol t = []"
  by (induction t) (auto split: event.splits)

lemma WriteCommand_loop_trace:
  "0 \<le> i \<Longrightarrow> count \<le> int (length data) \<Longrightarrow>
   WriteCommand_loop data count i s
     = s\<lparr>trace := trace s @ map Write (drop (nat i) (take (nat count) data))\<rparr>"
proof (induction data count i s rule: WriteCommand_loop.induct)
  case (1 data count i s)
  show ?case
  proof (cases "i < count")
    case True
    with "1.prems" have lt: "nat i < length (take (nat count) data)"
      by simp
    have nxt: "nat (i + 1) = Suc (nat i)"
      using "1.prems" by simp
    have split: "drop (nat i) (take (nat count) data)
            = data ! nat i # drop (nat (i + 1)) (take (nat count) data)"
      using Cons_nth_drop_Suc [OF lt] nxt True "1.prems" by simp
    have "WriteCommand_loop data count (i + 1) (Serial_write (data ! nat i) s)
            = (Serial_write (data ! nat i) s)
                \<lparr>trace := trace (Serial_write (data ! nat i) s)
                   @ map Write (drop (nat (i + 1)) (take (nat count) data))\<rparr>"
      using "1.IH" [OF True] "1.prems" by simp
    then show ?thesis
      using True by (subst WriteCommand_loop.simps) (simp add: split Serial_write_def)
  next
    case False
    with "1.prems" have "drop (nat i) (take (nat count) data) = []"
      by simp
    with False show ?thesis
      by (subst WriteCommand_loop.simps) simp
  qed
qed

lemma WriteCommand_whole:
  "count = int (length data) \<Longrightarrow> WriteCommand data count s = s\<lparr>trace := trace s @ map Write data\<rparr>"
  by (simp add: WriteCommand_def WriteCommand_loop_trace)

subsection \<open>The response waiter\<close>

lemma unat_timer_Suc:
  fixes timer maxWaitTime :: "32 word"
  assumes "timer < maxWaitTime"
  shows "unat (timer + 1) = Suc (unat timer)"
  using assms by unat_arith

lemma WaitResponse_loop_returns:
  fixes maxWaitTime :: "32 word"
  assumes "0 < maxWaitTime"
  shows "timer \<le> maxWaitTime \<Longrightarrow>
     \<exists>r c q inc t.
       WaitResponse_loop maxWaitTime ret timer s
         = Some (r, s\<lparr>clock := c, rx := q, incoming := inc, trace := trace s @ t\<rparr>) \<and>
       polling t \<and> clock s \<le> c \<and> c + unat timer \<le> clock s + unat maxWaitTime"
proof (induction "unat maxWaitTime - unat timer + length (rx s) + length (concat (incoming s))"
         arbitrary: ret timer s rule: less_induct)
  case less
  show ?case
  proof (cases "ret = 0 \<and> timer < maxWaitTime")
    case False
    have "WaitResponse_loop maxWaitTime ret timer s
            = Some (ret, s\<lparr>clock := clock s, rx := rx s, incoming := incoming s, trace := trace s @ []\<rparr>)"
      using False less.prems assms by (subst WaitResponse_loop.simps) auto
    moreover have "unat timer \<le> unat maxWaitTime"
      using less.prems by (simp add: word_le_nat_alt)
    ultimately show ?thesis
      by (intro exI [of _ ret] exI [of _ "clock s"] exI [of _ "rx s"] exI [of _ "incoming s"] exI [of _ "[]"]) simp
  next
    case True
    then have ret: "ret = 0" and lt: "timer < maxWaitTime" by simp_all
    show ?thesis
    proof (cases "rx s")
      case Nil
      define s2 where "s2 = s\<lparr>clock := clock s + 1, rx := concat (take 1 (incoming s)),
        incoming := drop 1 (incoming s), trace := trace s @ [Available False, Delay 1]\<rparr>"
      have step: "WaitResponse_loop maxWaitTime ret timer s
                    = WaitResponse_loop maxWaitTime ret (timer + 1) s2"
        using ret lt Nil
        by (subst WaitResponse_loop.simps) (simp add: Serial_available_def delay_def s2_def)
      have "concat (take 1 (incoming s)) @ concat (drop 1 (incoming s)) = concat (incoming s)"
        by (simp only: concat_append [symmetric] append_take_drop_id)
      then have "length (concat (take 1 (incoming s))) + length (concat (drop 1 (incoming s)))
                   = length (concat (incoming s))"
        by (metis length_append)
      moreover have u: "unat (timer + 1) = Suc (unat timer)"
        using lt by (rule unat_timer_Suc)
      moreover have "unat timer < unat maxWaitTime"
        using lt by (simp add: word_less_nat_alt)
      ultimately have m: "unat maxWaitTime - unat (timer + 1) + length (rx s2) + length (concat (incoming s2))
              < unat maxWaitTime - unat timer + length (rx s) + length (concat (incoming s))"
        by (simp add: s2_def Nil)
      have le: "timer + 1 \<le> maxWaitTime"
        using lt by (rule inc_le)
      from less.hyps [OF m le, of ret]
      obtain r c q inc t where
        res: "WaitResponse_loop maxWaitTime ret (timer + 1) s2
                = Some (r, s2\<lparr>clock := c, rx := q, incoming := inc, trace := trace s2 @ t\<rparr>)"
        and t: "polling t" and c1: "clock s2 \<le> c"
        and c2: "c + unat (timer + 1) \<le> clock s2 + unat maxWaitTime"
        by blast
      have "s2\<lparr>clock := c, rx := q, incoming := inc, trace := trace s2 @ t\<rparr>
              = s\<lparr>clock := c, rx := q, incoming := inc,
                   trace := trace s @ ([Available False, Delay 1] @ t)\<rparr>"
        by (simp add: s2_def)
      with step res have "WaitResponse_loop maxWaitTime ret timer s
              = Some (r, s\<lparr>clock := c, rx := q, incoming := inc,
                   trace := trace s @ ([Available False, Delay 1] @ t)\<rparr>)"
        by simp
      moreover have "polling ([Available False, Delay 1] @ t)"
        using t by simp
      moreover have "clock s \<le> c" "c + unat timer \<le> clock s + unat maxWaitTime"
        using c1 c2 u by (simp_all add: s2_def)
      ultimately show ?thesis
        by blast
    next
      case (Cons b bs)
      define s2 where "s2 = s\<lparr>rx := bs, trace := trace s @ [Available True, Read b]\<rparr>"
      show ?thesis
      proof (cases "b = ACK \<or> b = NAK")
        case True
        have "WaitResponse_loop maxWaitTime ret timer s
                = Some (b, s\<lparr>clock := clock s, rx := bs, incoming := incoming s,
                     trace := trace s @ [Available True, Read b]\<rparr>)"
          using ret lt Cons True
          by (subst WaitResponse_loop.simps) (simp add: Serial_available_def Serial_read_def)
        moreover have "polling [Available True, Read b]"
          by simp
        moreover have "unat timer \<le> unat maxWaitTime"
          using less.prems by (simp add: word_le_nat_alt)
        ultimately show ?thesis
          by (intro exI [of _ b] exI [of _ "clock s"] exI [of _ bs] exI [of _ "incoming s"]
                exI [of _ "[Available True, Read b]"]) simp
      next
        case False
        have step: "WaitResponse_loop maxWaitTime ret timer s
                      = WaitResponse_loop maxWaitTime b timer s2"
          using ret lt Cons False
          by (subst WaitResponse_loop.simps)
             (simp add: Serial_available_def Serial_read_def s2_def)
        have m: "unat maxWaitTime - unat timer + length (rx s2) + length (concat (incoming s2))
              < unat maxWaitTime - unat timer + length (rx s) + length (concat (incoming s))"
          by (simp add: s2_def Cons)
        from less.hyps [OF m less.prems, of b]
        obtain r c q inc t where
          res: "WaitResponse_loop maxWaitTime b timer s2
                  = Some (r, s2\<lparr>clock := c, rx := q, incoming := inc, trace := trace s2 @ t\<rparr>)"
          and t: "polling t" and c1: "clock s2 \<le> c"
          and c2: "c + unat timer \<le> clock s2 + unat maxWaitTime"
          by blast
        have "s2\<lparr>clock := c, rx := q, incoming := inc, trace := trace s2 @ t\<rparr>
                = s\<lparr>clock := c, rx := q, incoming := inc,
                     trace := trace s @ ([Available True, Read b] @ t)\<rparr>"
          by (simp add: s2_def)
        with step res have "WaitResponse_loop maxWaitTime ret timer s
                = Some (r, s\<lparr>clock := c, rx := q, incoming := inc,
                     trace := trace s @ ([Available True, Read b] @ t)\<rparr>)"
          by simp
        moreover have "polling ([Available True, Read b] @ t)"
          using t by simp
        moreover have "clock s \<le> c" "c + unat timer \<le> clock s + unat maxWaitTime"
          using c1 c2 by (simp_all add: s2_def)
        ultimately show ?thesis
          by blast
      qed
    qed
  qed
qed

lemma WaitResponse_returns:
  fixes maxWaitTime :: "32 word"
  assumes "0 < maxWaitTime"
  shows "\<exists>r c q inc t.
       WaitResponse minWaitTime maxWaitTime s
         = Some (r, s\<lparr>clock := c, rx := q, incoming := inc,
              trace := trace s @ Enter_WaitResponse minWaitTime maxWaitTime
                 # (if 0 < minWaitTime then [Delay (unat minWaitTime)] else []) @ t\<rparr>) \<and>
       polling t \<and> clock s + unat minWaitTime \<le> c \<and>
       c \<le> clock s + unat minWaitTime + unat maxWaitTime"
proof -
  define s0 where "s0 = s\<lparr>trace := trace s @ [Enter_WaitResponse minWaitTime maxWaitTime]\<rparr>"
  define s1 where "s1 = (if 0 < minWaitTime then delay (unat minWaitTime) s0 else s0)"
  have w: "WaitResponse minWaitTime maxWaitTime s = WaitResponse_loop maxWaitTime 0 0 s1"
    by (simp add: WaitResponse_def s0_def s1_def Let_def)
  have zero: "minWaitTime = 0 \<Longrightarrow> unat minWaitTime = 0"
    by simp
  have pos: "(0 < minWaitTime) = (minWaitTime \<noteq> 0)"
    by (simp add: word_neq_0_conv)
  from WaitResponse_loop_returns [OF assms, of 0 0 s1]
  obtain r c q inc t where
    res: "WaitResponse_loop maxWaitTime 0 0 s1
            = Some (r, s1\<lparr>clock := c, rx := q, incoming := inc, trace := trace s1 @ t\<rparr>)"
    and t: "polling t" and c1: "clock s1 \<le> c" and c2: "c + unat (0 :: 32 word) \<le> clock s1 + unat maxWaitTime"
    by auto
  have cl: "clock s1 = clock s + unat minWaitTime"
    by (simp add: s1_def s0_def delay_def pos)
  have "s1\<lparr>clock := c, rx := q, incoming := inc, trace := trace s1 @ t\<rparr>
          = s\<lparr>clock := c, rx := q, incoming := inc,
              trace := trace s @ Enter_WaitResponse minWaitTime maxWaitTime
                 # (if 0 < minWaitTime then [Delay (unat minWaitTime)] else []) @ t\<rparr>"
    by (simp add: s1_def s0_def delay_def)
  with w res t c1 c2 cl show ?thesis
    by (intro exI [of _ r] exI [of _ c] exI [of _ q] exI [of _ inc] exI [of _ t]) simp
qed

lemma concat_take_drop_Nil:
  "concat xss = [] \<Longrightarrow> concat (take n xss) = [] \<and> concat (drop n xss) = []"
  by (auto dest: in_set_takeD in_set_dropD)

lemma silent_delay: "silent s \<Longrightarrow> silent (delay n s)"
  using concat_take_drop_Nil [of "incoming s" n] by (simp add: silent_def delay_def)

lemma WaitResponse_loop_silent:
  fixes maxWaitTime :: "32 word"
  shows "silent s \<Longrightarrow> timer \<le> maxWaitTime \<Longrightarrow> 0 < maxWaitTime \<Longrightarrow>
     \<exists>s'. WaitResponse_loop maxWaitTime 0 timer s = Some (0, s') \<and>
          clock s' = clock s + (unat maxWaitTime - unat timer) \<and>
          trace s' = trace s @ concat (replicate (unat maxWaitTime - unat timer) [Available False, Delay 1]) \<and>
          silent s'"
proof (induction "unat maxWaitTime - unat timer" arbitrary: timer s)
  case 0
  then have "unat maxWaitTime \<le> unat timer" by simp
  then have "\<not> timer < maxWaitTime" by (simp add: word_less_nat_alt)
  then have "WaitResponse_loop maxWaitTime 0 timer s = Some (0, s)"
    using "0.prems" by (subst WaitResponse_loop.simps) auto
  with 0 show ?case by simp
next
  case (Suc n)
  then have "unat timer < unat maxWaitTime" by simp
  then have lt: "timer < maxWaitTime" by (simp add: word_less_nat_alt)
  have u: "unat (timer + 1) = Suc (unat timer)"
    using lt by (rule unat_timer_Suc)
  define s2 where "s2 = delay 1 (s\<lparr>trace := trace s @ [Available False]\<rparr>)"
  have sil: "silent s2"
    using Suc.prems(1) unfolding s2_def by (intro silent_delay) (simp add: silent_def)
  have step: "WaitResponse_loop maxWaitTime 0 timer s = WaitResponse_loop maxWaitTime 0 (timer + 1) s2"
    using lt Suc.prems(1)
    by (subst WaitResponse_loop.simps) (simp add: Serial_available_def s2_def silent_def)
  have n: "n = unat maxWaitTime - unat (timer + 1)"
    using Suc.hyps(2) u by simp
  from Suc.hyps(1) [OF n sil inc_le [OF lt] Suc.prems(3)]
  obtain s' where res: "WaitResponse_loop maxWaitTime 0 (timer + 1) s2 = Some (0, s')"
    and c: "clock s' = clock s2 + (unat maxWaitTime - unat (timer + 1))"
    and t: "trace s' = trace s2 @ concat (replicate (unat maxWaitTime - unat (timer + 1)) [Available False, Delay 1])"
    and s: "silent s'"
    by blast
  have "unat maxWaitTime - unat timer = Suc (unat maxWaitTime - unat (timer + 1))"
    using Suc.hyps(2) n by simp
  with step res c t s show ?case
    by (simp add: s2_def delay_def)
qed

lemma WaitResponse_loop_never_returns:
  assumes "WaitResponse_loop maxWaitTime ret timer s = Some y"
  shows "\<not> (maxWaitTime = 0 \<and> ret = 0 \<and> silent s)"
proof (rule WaitResponse_loop.raw_induct
         [where P = "\<lambda>m r t s y. \<not> (m = 0 \<and> r = 0 \<and> silent s)", OF _ assms], goal_cases)
  case (1 f m r t s y)
  show ?case
  proof
    assume a: "m = 0 \<and> r = 0 \<and> silent s"
    define s2 where "s2 = delay 1 (s\<lparr>trace := trace s @ [Available False]\<rparr>)"
    have sil: "silent s2"
      using a unfolding s2_def by (intro silent_delay) (simp add: silent_def)
    from 1(2) a have "f m r (t + 1) s2 = Some y"
      by (simp add: Serial_available_def s2_def silent_def)
    from 1(1) [OF this] a sil show False
      by simp
  qed
qed

lemma WaitResponse_loop_blocks:
  "silent s \<Longrightarrow> WaitResponse_loop 0 0 timer s = None"
  using WaitResponse_loop_never_returns [of 0 0 timer s] by (cases "WaitResponse_loop 0 0 timer s") auto

lemma WriteCommand_loop_only_trace:
  "\<exists>t. WriteCommand_loop data count i s = s\<lparr>trace := trace s @ t\<rparr>"
proof (induction data count i s rule: WriteCommand_loop.induct)
  case (1 data count i s)
  show ?case
  proof (cases "i < count")
    case True
    from "1.IH" [OF True] obtain t where
      "WriteCommand_loop data count (i + 1) (Serial_write (data ! nat i) s)
         = (Serial_write (data ! nat i) s)\<lparr>trace := trace (Serial_write (data ! nat i) s) @ t\<rparr>"
      by blast
    then have "WriteCommand_loop data count i s = s\<lparr>trace := trace s @ (Write (data ! nat i) # t)\<rparr>"
      using True by (subst WriteCommand_loop.simps) (simp add: Serial_write_def)
    then show ?thesis by blast
  next
    case False
    then have "WriteCommand_loop data count i s = s\<lparr>trace := trace s @ []\<rparr>"
      by (subst WriteCommand_loop.simps) simp
    then show ?thesis by blast
  qed
qed

lemma WriteCommand_only_trace:
  "\<exists>t. WriteCommand data count s = s\<lparr>trace := trace s @ t\<rparr>"
  unfolding WriteCommand_def by (rule WriteCommand_loop_only_trace)

text \<open>
  Claim C4. For \<^verbatim>\<open>minWaitTime > 0\<close> and \<^verbatim>\<open>maxWaitTime > 0\<close>, \<^verbatim>\<open>WaitResponse\<close>
  returns, and the first thing it does is \<^verbatim>\<open>delay(minWaitTime)\<close>: every poll of the
  port comes after it. On a silent port it returns the timeout value 0, which is neither
  ACK nor NAK, after \<^verbatim>\<open>maxWaitTime\<close> polls that each found nothing and waited one
  millisecond: exactly \<^verbatim>\<open>maxWaitTime\<close> ticks after the first delay.
\<close>

theorem WaitResponse_delay_then_timeout:
  "0 < minWaitTime \<and> 0 < maxWaitTime \<longrightarrow>
     (\<exists>r s' t. WaitResponse minWaitTime maxWaitTime s = Some (r, s') \<and>
        trace s' = trace s @ Enter_WaitResponse minWaitTime maxWaitTime
                     # Delay (unat minWaitTime) # t \<and> polling t) \<and>
     (silent s \<longrightarrow>
        (\<exists>s'. WaitResponse minWaitTime maxWaitTime s = Some (0, s') \<and>
           trace s' = trace s @ Enter_WaitResponse minWaitTime maxWaitTime
                        # Delay (unat minWaitTime)
                        # concat (replicate (unat maxWaitTime) [Available False, Delay 1]) \<and>
           clock s' = clock s + unat minWaitTime + unat maxWaitTime)) \<and>
     (0::byte) \<noteq> ACK \<and> (0::byte) \<noteq> NAK"
proof (intro impI conjI)
  assume a: "0 < minWaitTime \<and> 0 < maxWaitTime"
  from WaitResponse_returns [of maxWaitTime minWaitTime s] a
  show "\<exists>r s' t. WaitResponse minWaitTime maxWaitTime s = Some (r, s') \<and>
        trace s' = trace s @ Enter_WaitResponse minWaitTime maxWaitTime
                     # Delay (unat minWaitTime) # t \<and> polling t"
    by fastforce
next
  assume a: "0 < minWaitTime \<and> 0 < maxWaitTime" and sil: "silent s"
  define s1 where "s1 = delay (unat minWaitTime)
     (s\<lparr>trace := trace s @ [Enter_WaitResponse minWaitTime maxWaitTime]\<rparr>)"
  have w: "WaitResponse minWaitTime maxWaitTime s = WaitResponse_loop maxWaitTime 0 0 s1"
    using a by (simp add: WaitResponse_def s1_def Let_def)
  have "silent s1"
    using sil unfolding s1_def by (intro silent_delay) (simp add: silent_def)
  from WaitResponse_loop_silent [OF this, of 0 maxWaitTime] a
  obtain s' where "WaitResponse_loop maxWaitTime 0 0 s1 = Some (0, s')"
    "clock s' = clock s1 + unat maxWaitTime"
    "trace s' = trace s1 @ concat (replicate (unat maxWaitTime) [Available False, Delay 1])"
    by auto
  with w show "\<exists>s'. WaitResponse minWaitTime maxWaitTime s = Some (0, s') \<and>
           trace s' = trace s @ Enter_WaitResponse minWaitTime maxWaitTime
                        # Delay (unat minWaitTime)
                        # concat (replicate (unat maxWaitTime) [Available False, Delay 1]) \<and>
           clock s' = clock s + unat minWaitTime + unat maxWaitTime"
    by (simp add: s1_def delay_def)
qed (simp_all add: ACK_def NAK_def)

theorem WaitResponse_delay_then_timeout_witness:
  "(0 :: 32 word) < 100 \<and> (0 :: 32 word) < 500 \<and> silent (power_on []) \<and>
   (\<exists>s'. WaitResponse 100 500 (power_on []) = Some (0, s') \<and>
      trace s' = Enter_WaitResponse 100 500 # Delay 100
                   # concat (replicate 500 [Available False, Delay 1]) \<and>
      clock s' = 600)"
  using WaitResponse_delay_then_timeout [of 100 500 "power_on []"]
  by (simp add: silent_def power_on_def)

text \<open>
  Claim C5. Writing a frame and waiting for the response, with \<^verbatim>\<open>maxWaitTime > 0\<close>,
  returns whatever the device sends, and the time spent (in \<^verbatim>\<open>delay\<close>, the only thing
  that takes time here) is at least \<^verbatim>\<open>minWaitTime\<close> and at most
  \<^verbatim>\<open>minWaitTime + maxWaitTime\<close>. With \<^verbatim>\<open>maxWaitTime == 0\<close> the call can block for
  ever: on a silent port it never returns.
\<close>

theorem command_send_blocking_time:
  "(0 < maxWaitTime \<longrightarrow>
      (\<exists>r s'. WaitResponse minWaitTime maxWaitTime (WriteCommand data count s) = Some (r, s') \<and>
         clock s + unat minWaitTime \<le> clock s' \<and>
         clock s' \<le> clock s + unat minWaitTime + unat maxWaitTime)) \<and>
   (silent s \<longrightarrow> WaitResponse minWaitTime 0 (WriteCommand data count s) = None)"
proof (intro impI conjI)
  obtain t where w: "WriteCommand data count s = s\<lparr>trace := trace s @ t\<rparr>"
    using WriteCommand_only_trace by blast
  {
    assume "0 < maxWaitTime"
    from WaitResponse_returns [OF this, of minWaitTime "WriteCommand data count s"]
    show "\<exists>r s'. WaitResponse minWaitTime maxWaitTime (WriteCommand data count s) = Some (r, s') \<and>
         clock s + unat minWaitTime \<le> clock s' \<and>
         clock s' \<le> clock s + unat minWaitTime + unat maxWaitTime"
      by (fastforce simp: w)
  next
    assume "silent s"
    then have "silent (WriteCommand data count s)"
      by (simp add: w silent_def)
    then have s0: "silent ((WriteCommand data count s)
               \<lparr>trace := trace (WriteCommand data count s) @ [Enter_WaitResponse minWaitTime 0]\<rparr>)"
      by (simp add: silent_def)
    have "silent (if 0 < minWaitTime
        then delay (unat minWaitTime) ((WriteCommand data count s)
               \<lparr>trace := trace (WriteCommand data count s) @ [Enter_WaitResponse minWaitTime 0]\<rparr>)
        else (WriteCommand data count s)
               \<lparr>trace := trace (WriteCommand data count s) @ [Enter_WaitResponse minWaitTime 0]\<rparr>)"
      using s0 silent_delay [OF s0] by simp
    then show "WaitResponse minWaitTime 0 (WriteCommand data count s) = None"
      unfolding WaitResponse_def Let_def by (rule WaitResponse_loop_blocks)
  }
qed

theorem command_send_blocking_time_witness:
  "(0 :: 32 word) < 500 \<and>
   (\<exists>r s'. WaitResponse 100 500 (WriteCommand ClearTemperature_XXX 16 (power_on [[ACK]])) = Some (r, s') \<and>
      clock (power_on [[ACK]]) + unat (100 :: 32 word) \<le> clock s' \<and>
      clock s' \<le> clock (power_on [[ACK]]) + unat (100 :: 32 word) + unat (500 :: 32 word)) \<and>
   silent (power_on []) \<and>
   WaitResponse 100 0 (WriteCommand ClearTemperature_XXX 16 (power_on [])) = None"
  using command_send_blocking_time [of 500 100 ClearTemperature_XXX 16 "power_on [[ACK]]"]
    command_send_blocking_time [of 500 100 ClearTemperature_XXX 16 "power_on []"]
  by (simp add: silent_def power_on_def)

text \<open>
  Claim C10. The value \<^verbatim>\<open>WaitResponse\<close> returns is not always ACK, NAK or 0: when the
  first byte available after the initial delay is nonzero and neither ACK nor NAK, the
  call returns that very byte at once, without a single polling tick, and leaves the
  bytes behind it unread.
\<close>

theorem WaitResponse_returns_stray_byte:
  "b \<noteq> 0 \<and> b \<noteq> ACK \<and> b \<noteq> NAK \<and>
   rx s @ concat (take (unat minWaitTime) (incoming s)) = b # rest \<longrightarrow>
     (\<exists>s'. WaitResponse minWaitTime maxWaitTime s = Some (b, s') \<and>
        clock s' = clock s + unat minWaitTime \<and> rx s' = rest)"
proof
  assume a: "b \<noteq> 0 \<and> b \<noteq> ACK \<and> b \<noteq> NAK \<and>
   rx s @ concat (take (unat minWaitTime) (incoming s)) = b # rest"
  define s1 where "s1 = (if 0 < minWaitTime
        then delay (unat minWaitTime) (s\<lparr>trace := trace s @ [Enter_WaitResponse minWaitTime maxWaitTime]\<rparr>)
        else s\<lparr>trace := trace s @ [Enter_WaitResponse minWaitTime maxWaitTime]\<rparr>)"
  have pos: "(0 < minWaitTime) = (minWaitTime \<noteq> 0)"
    by (simp add: word_neq_0_conv)
  have rx1: "rx s1 = b # rest" and c1: "clock s1 = clock s + unat minWaitTime"
    using a by (auto simp: s1_def delay_def pos)
  define s2 where "s2 = s1\<lparr>rx := rest, trace := trace s1 @ [Available True, Read b]\<rparr>"
  have "WaitResponse_loop maxWaitTime 0 0 s1 = WaitResponse_loop maxWaitTime b 0 s2"
    using a rx1
    by (subst WaitResponse_loop.simps)
       (auto simp: Serial_available_def Serial_read_def s2_def word_neq_0_conv)
  also have "\<dots> = Some (b, s2)"
    using a by (subst WaitResponse_loop.simps) simp
  finally have "WaitResponse minWaitTime maxWaitTime s = Some (b, s2)"
    by (simp add: WaitResponse_def Let_def s1_def)
  then show "\<exists>s'. WaitResponse minWaitTime maxWaitTime s = Some (b, s') \<and>
        clock s' = clock s + unat minWaitTime \<and> rx s' = rest"
    using c1 by (simp add: s2_def)
qed

theorem WaitResponse_returns_stray_byte_witness:
  "(0x41 :: byte) \<noteq> 0 \<and> (0x41 :: byte) \<noteq> ACK \<and> (0x41 :: byte) \<noteq> NAK \<and>
   rx (power_on [[0x41, ACK]]) @ concat (take (unat (100 :: 32 word)) (incoming (power_on [[0x41, ACK]])))
     = 0x41 # [ACK] \<and>
   (\<exists>s'. WaitResponse 100 500 (power_on [[0x41, ACK]]) = Some (0x41, s') \<and>
      clock s' = 100 \<and> rx s' = [ACK])"
  using WaitResponse_returns_stray_byte [of "0x41" "power_on [[0x41, ACK]]" 100 "[ACK]" 500]
  by (simp add: power_on_def ACK_def NAK_def)

text \<open>
  Claim C3 says that a byte that is neither ACK nor NAK is discarded and polling goes on, so
  that a stray byte followed by ACK ends in ACK. The loop condition \<^verbatim>\<open>ret == 0\<close> ends
  the loop on any nonzero byte: with the stray byte 0x41 and then ACK waiting,
  \<^verbatim>\<open>WaitResponse(100, 500)\<close> returns 0x41, not ACK.
\<close>

theorem noise_then_ACK_returns_noise:
  "map_option fst (WaitResponse 100 500 (power_on [[0x41, ACK]])) = Some 0x41 \<and>
   map_option fst (WaitResponse 100 500 (power_on [[0x41, ACK]])) \<noteq> Some ACK"
  by (simp add: WaitResponse_def power_on_def delay_def Let_def WaitResponse_loop.simps
        Serial_available_def Serial_read_def ACK_def NAK_def)

subsection \<open>The patched frames\<close>

lemma list33:
  assumes "length xs = 33"
  shows "xs = [xs!0, xs!1, xs!2, xs!3, xs!4, xs!5, xs!6, xs!7, xs!8, xs!9, xs!10, xs!11, xs!12, xs!13, xs!14, xs!15, xs!16,
     xs!17, xs!18, xs!19, xs!20, xs!21, xs!22, xs!23, xs!24, xs!25, xs!26, xs!27, xs!28, xs!29, xs!30, xs!31, xs!32]"
proof -
  have "xs = map ((!) xs) [0..<length xs]"
    by (simp only: map_nth)
  also have "[0..<length xs] = [0,1,2,3,4,5,6,7,8,9,10,11,12,13,14,15,16,17,18,19,20,21,22,23,24,25,26,27,28,29,30,31,32]"
    unfolding assms by (simp add: upt_rec)
  finally show ?thesis by simp
qed

lemma temperature_shape:
  assumes "XXX[23 := 0x30, 24 := 0x30, 26 := 0x30, 31 := 0x98] = UpdateTemperature_XXX_init"
  shows "XXX = temperature_frame (XXX ! 23) (XXX ! 24) (XXX ! 26) (XXX ! 31)"
proof -
  have len: "length XXX = 33"
    using arg_cong [OF assms, of length] by (simp add: UpdateTemperature_XXX_init_def)
  have nth: "XXX ! i = UpdateTemperature_XXX_init ! i"
    if "i \<noteq> 23" "i \<noteq> 24" "i \<noteq> 26" "i \<noteq> 31" for i
  proof -
    have "XXX[23 := 0x30, 24 := 0x30, 26 := 0x30, 31 := 0x98] ! i = UpdateTemperature_XXX_init ! i"
      by (simp only: assms)
    with that show ?thesis by simp
  qed
  show ?thesis
    apply (subst list33 [OF len])
    apply (simp add: temperature_frame_def nth)
    apply (simp add: UpdateTemperature_XXX_init_def byte_of_char_def)
    done
qed

lemma list30:
  assumes "length xs = 30"
  shows "xs = [xs!0, xs!1, xs!2, xs!3, xs!4, xs!5, xs!6, xs!7, xs!8, xs!9, xs!10, xs!11, xs!12, xs!13, xs!14, xs!15, xs!16,
     xs!17, xs!18, xs!19, xs!20, xs!21, xs!22, xs!23, xs!24, xs!25, xs!26, xs!27, xs!28, xs!29]"
proof -
  have "xs = map ((!) xs) [0..<length xs]"
    by (simp only: map_nth)
  also have "[0..<length xs] = [0,1,2,3,4,5,6,7,8,9,10,11,12,13,14,15,16,17,18,19,20,21,22,23,24,25,26,27,28,29]"
    unfolding assms by (simp add: upt_rec)
  finally show ?thesis by simp
qed

lemma humidity_shape:
  assumes "XXX[22 := 0x30, 23 := 0x30, 28 := 0xDC] = UpdateHumidity_XXX_init"
  shows "XXX = humidity_frame (XXX ! 22) (XXX ! 23) (XXX ! 28)"
proof -
  have len: "length XXX = 30"
    using arg_cong [OF assms, of length] by (simp add: UpdateHumidity_XXX_init_def)
  have nth: "XXX ! i = UpdateHumidity_XXX_init ! i"
    if "i \<noteq> 22" "i \<noteq> 23" "i \<noteq> 28" for i
  proof -
    have "XXX[22 := 0x30, 23 := 0x30, 28 := 0xDC] ! i = UpdateHumidity_XXX_init ! i"
      by (simp only: assms)
    with that show ?thesis by simp
  qed
  show ?thesis
    apply (subst list30 [OF len])
    apply (simp add: humidity_frame_def nth)
    apply (simp add: UpdateHumidity_XXX_init_def byte_of_char_def)
    done
qed

lemma temperature_frame_ok:
  "(temperature_frame a b c d)[23 := 0x30, 24 := 0x30, 26 := 0x30, 31 := 0x98]
     = UpdateTemperature_XXX_init"
  by (simp add: temperature_frame_def UpdateTemperature_XXX_init_def byte_of_char_def)

lemma humidity_frame_ok:
  "(humidity_frame a b d)[22 := 0x30, 23 := 0x30, 28 := 0xDC] = UpdateHumidity_XXX_init"
  by (simp add: humidity_frame_def UpdateHumidity_XXX_init_def byte_of_char_def)

lemma CheckSum_temperature_frame:
  "CheckSum (temperature_frame tens ones tenths w) 31 = 8 + tens + ones + tenths"
  by (simp add: CheckSum_sum temperature_frame_def)

lemma CheckSum_humidity_frame:
  "CheckSum (humidity_frame tens ones w) 28 = 124 + tens + ones"
  by (simp add: CheckSum_sum humidity_frame_def)

lemma checksum_okI:
  assumes "length frame = Suc (Suc n)" "frame ! n = CheckSum frame (int n)"
  shows "checksum_ok frame"
proof -
  have "CheckSum frame (int n) = sum_list (take n frame)"
    using assms(1) by (simp add: CheckSum_sum)
  then have "unat (frame ! n) = sum_list (map unat (take n frame)) mod 256"
    using assms(2) by (simp add: unat_sum_list_byte)
  then show ?thesis
    using assms(1) by (simp add: checksum_ok_def)
qed

lemma checksum_ok_temperature_frame:
  "checksum_ok (temperature_frame tens ones tenths (8 + tens + ones + tenths))"
proof (rule checksum_okI [where n = 31])
  show "length (temperature_frame tens ones tenths (8 + tens + ones + tenths)) = Suc (Suc 31)"
    by (simp add: temperature_frame_def)
  show "temperature_frame tens ones tenths (8 + tens + ones + tenths) ! 31
          = CheckSum (temperature_frame tens ones tenths (8 + tens + ones + tenths)) (int 31)"
    by (simp add: CheckSum_temperature_frame) (simp add: temperature_frame_def)
qed

lemma checksum_ok_humidity_frame:
  "checksum_ok (humidity_frame tens ones (124 + tens + ones))"
proof (rule checksum_okI [where n = 28])
  show "length (humidity_frame tens ones (124 + tens + ones)) = Suc (Suc 28)"
    by (simp add: humidity_frame_def)
  show "humidity_frame tens ones (124 + tens + ones) ! 28
          = CheckSum (humidity_frame tens ones (124 + tens + ones)) (int 28)"
    by (simp add: CheckSum_humidity_frame) (simp add: humidity_frame_def)
qed

lemma UpdateTemperature_patch_frame:
  assumes "int_of_float (fmul deg (Finite 10)) = Some tenths" "int_of_float deg = Some whole"
  shows "UpdateTemperature_patch deg (temperature_frame x y z w)
           = Some (temperature_frame
                (blank_zero (word_of_int ((whole sdiv 10) smod 10 + 48)))
                (word_of_int (whole smod 10 + 48))
                (word_of_int (tenths smod 10 + 48))
                (8 + blank_zero (word_of_int ((whole sdiv 10) smod 10 + 48))
                   + word_of_int (whole smod 10 + 48) + word_of_int (tenths smod 10 + 48)))"
proof -
  have u: "(temperature_frame x y z w)[26 := a, 24 := b, 23 := c] = temperature_frame c b a w" for a b c
    by (simp add: temperature_frame_def)
  have n: "temperature_frame c b a w ! 23 = c" for a b c
    by (simp add: temperature_frame_def)
  have v: "(temperature_frame c b a w)[23 := d] = temperature_frame d b a w" for a b c d
    by (simp add: temperature_frame_def)
  have k: "(temperature_frame c b a w)[31 := d] = temperature_frame c b a d" for a b c d
    by (simp add: temperature_frame_def)
  show ?thesis
    unfolding UpdateTemperature_patch_def assms
    by (simp add: u n v k Let_def CheckSum_temperature_frame blank_zero_def byte_of_char_def)
qed

lemma UpdateHumidity_patch_frame:
  assumes "int_of_float hum = Some whole"
  shows "UpdateHumidity_patch hum (humidity_frame x y w)
           = Some (humidity_frame
                (blank_zero (word_of_int ((whole sdiv 10) smod 10 + 48)))
                (word_of_int (whole smod 10 + 48))
                (124 + blank_zero (word_of_int ((whole sdiv 10) smod 10 + 48))
                   + word_of_int (whole smod 10 + 48)))"
proof -
  have u: "(humidity_frame x y w)[23 := b, 22 := c] = humidity_frame c b w" for b c
    by (simp add: humidity_frame_def)
  have n: "humidity_frame c b w ! 22 = c" for b c
    by (simp add: humidity_frame_def)
  have v: "(humidity_frame c b w)[22 := d] = humidity_frame d b w" for b c d
    by (simp add: humidity_frame_def)
  have k: "(humidity_frame c b w)[28 := d] = humidity_frame c b d" for b c d
    by (simp add: humidity_frame_def)
  show ?thesis
    unfolding UpdateHumidity_patch_def assms
    by (simp add: u n v k Let_def CheckSum_humidity_frame blank_zero_def byte_of_char_def)
qed

lemma UpdateTemperature_patch_None:
  "int_of_float (fmul deg (Finite 10)) = None \<or> int_of_float deg = None
     \<Longrightarrow> UpdateTemperature_patch deg XXX = None"
  by (auto simp: UpdateTemperature_patch_def split: Option.bind_splits)

lemma UpdateTemperature_patch_cases:
  assumes "XXX[23 := 0x30, 24 := 0x30, 26 := 0x30, 31 := 0x98] = UpdateTemperature_XXX_init"
  shows "UpdateTemperature_patch deg XXX = UpdateTemperature_patch deg UpdateTemperature_XXX_init \<and>
         (\<forall>F. UpdateTemperature_patch deg XXX = Some F \<longrightarrow>
            (\<exists>a b c. F = temperature_frame a b c (8 + a + b + c)))"
proof -
  have x: "XXX = temperature_frame (XXX ! 23) (XXX ! 24) (XXX ! 26) (XXX ! 31)"
    using assms by (rule temperature_shape)
  have i: "UpdateTemperature_XXX_init = temperature_frame 0x30 0x30 0x30 0x98"
    by (simp add: temperature_frame_def UpdateTemperature_XXX_init_def byte_of_char_def)
  show ?thesis
  proof (cases "int_of_float (fmul deg (Finite 10))")
    case None
    then show ?thesis by (simp add: UpdateTemperature_patch_None)
  next
    case (Some tenths)
    show ?thesis
    proof (cases "int_of_float deg")
      case None
      then show ?thesis by (simp add: UpdateTemperature_patch_None)
    next
      case (Some whole)
      define a where "a = blank_zero (word_of_int ((whole sdiv 10) smod 10 + 48))"
      define b :: byte where "b = word_of_int (whole smod 10 + 48)"
      define c :: byte where "c = word_of_int (tenths smod 10 + 48)"
      note p = UpdateTemperature_patch_frame
        [OF \<open>int_of_float (fmul deg (Finite 10)) = Some tenths\<close> Some, folded a_def b_def c_def]
      have 1: "UpdateTemperature_patch deg XXX = Some (temperature_frame a b c (8 + a + b + c))"
        by (subst x) (rule p)
      have 2: "UpdateTemperature_patch deg UpdateTemperature_XXX_init
                 = Some (temperature_frame a b c (8 + a + b + c))"
        by (subst i) (rule p)
      show ?thesis
        unfolding 1 2 by blast
    qed
  qed
qed

subsection \<open>The display operations\<close>

lemma send_frame:
  "\<exists>c q inc t.
     map_option snd (WaitResponse 100 500 (WriteCommand F (int (length F)) s))
       = Some (s\<lparr>clock := c, rx := q, incoming := inc,
            trace := trace s @ map Write F @ Enter_WaitResponse 100 500 # Delay 100 # t\<rparr>) \<and>
     polling t \<and> clock s + 100 \<le> c \<and> c \<le> clock s + 600"
proof -
  have w: "WriteCommand F (int (length F)) s = s\<lparr>trace := trace s @ map Write F\<rparr>"
    by (simp add: WriteCommand_whole)
  have "(0 :: 32 word) < 500" by simp
  from WaitResponse_returns [OF this, of 100 "s\<lparr>trace := trace s @ map Write F\<rparr>"]
  obtain r c q inc t where
    "WaitResponse 100 500 (s\<lparr>trace := trace s @ map Write F\<rparr>)
       = Some (r, s\<lparr>clock := c, rx := q, incoming := inc,
            trace := trace s @ map Write F @ Enter_WaitResponse 100 500 # Delay 100 # t\<rparr>)"
    "polling t" "clock s + 100 \<le> c" "c \<le> clock s + 600"
    by auto
  then show ?thesis
    unfolding w by (intro exI [of _ c] exI [of _ q] exI [of _ inc] exI [of _ t]) simp
qed

lemma ClearTemperature_returns:
  "\<exists>c q inc t.
     ClearTemperature s
       = Some (s\<lparr>clock := c, rx := q, incoming := inc,
            trace := trace s @ map Write ClearTemperature_XXX
                       @ Enter_WaitResponse 100 500 # Delay 100 # t\<rparr>) \<and>
     polling t \<and> clock s + 100 \<le> c \<and> c \<le> clock s + 600"
proof -
  have "int (length ClearTemperature_XXX) = 16"
    by (simp add: ClearTemperature_XXX_def)
  with send_frame [of ClearTemperature_XXX s] show ?thesis
    by (simp add: ClearTemperature_def)
qed

lemma ClearHumidity_returns:
  "\<exists>c q inc t.
     ClearHumidity s
       = Some (s\<lparr>clock := c, rx := q, incoming := inc,
            trace := trace s @ map Write ClearHumidity_XXX
                       @ Enter_WaitResponse 100 500 # Delay 100 # t\<rparr>) \<and>
     polling t \<and> clock s + 100 \<le> c \<and> c \<le> clock s + 600"
proof -
  have "int (length ClearHumidity_XXX) = 16"
    by (simp add: ClearHumidity_XXX_def)
  with send_frame [of ClearHumidity_XXX s] show ?thesis
    by (simp add: ClearHumidity_def)
qed

lemma UpdateScreen_returns:
  "\<exists>c q inc t.
     UpdateScreen s
       = Some (s\<lparr>clock := c, rx := q, incoming := inc,
            trace := trace s @ map Write UpdateScreen_XXX
                       @ Enter_WaitResponse 100 500 # Delay 100 # t\<rparr>) \<and>
     polling t \<and> clock s + 100 \<le> c \<and> c \<le> clock s + 600"
proof -
  have "int (length UpdateScreen_XXX) = 20"
    by (simp add: UpdateScreen_XXX_def)
  with send_frame [of UpdateScreen_XXX s] show ?thesis
    by (simp add: UpdateScreen_def)
qed

lemma UpdateTemperature_None:
  "UpdateTemperature_patch deg (UpdateTemperature_XXX s) = None \<Longrightarrow> UpdateTemperature deg s = None"
  using ClearTemperature_returns [of s] by (auto simp: UpdateTemperature_def)

lemma UpdateTemperature_returns:
  assumes "UpdateTemperature_patch deg (UpdateTemperature_XXX s) = Some F" "length F = 33"
  shows "\<exists>c q inc t1 t2.
     UpdateTemperature deg s
       = Some (s\<lparr>clock := c, rx := q, incoming := inc,
            trace := trace s @ map Write ClearTemperature_XXX
                       @ Enter_WaitResponse 100 500 # Delay 100 # t1
                       @ map Write F @ Enter_WaitResponse 100 500 # Delay 100 # t2,
            UpdateTemperature_XXX := F\<rparr>) \<and>
     polling t1 \<and> polling t2"
proof -
  from ClearTemperature_returns [of s] obtain c1 q1 inc1 t1 where
    c: "ClearTemperature s
       = Some (s\<lparr>clock := c1, rx := q1, incoming := inc1,
            trace := trace s @ map Write ClearTemperature_XXX
                       @ Enter_WaitResponse 100 500 # Delay 100 # t1\<rparr>)"
    and t1: "polling t1"
    by blast
  define s1 where "s1 = s\<lparr>clock := c1, rx := q1, incoming := inc1,
            trace := trace s @ map Write ClearTemperature_XXX
                       @ Enter_WaitResponse 100 500 # Delay 100 # t1\<rparr>"
  from send_frame [of F "s1\<lparr>UpdateTemperature_XXX := F\<rparr>"] obtain c2 q2 inc2 t2 where
    d: "map_option snd (WaitResponse 100 500 (WriteCommand F 33 (s1\<lparr>UpdateTemperature_XXX := F\<rparr>)))
       = Some (s1\<lparr>UpdateTemperature_XXX := F\<rparr>\<lparr>clock := c2, rx := q2, incoming := inc2,
            trace := trace (s1\<lparr>UpdateTemperature_XXX := F\<rparr>) @ map Write F
               @ Enter_WaitResponse 100 500 # Delay 100 # t2\<rparr>)"
    and t2: "polling t2"
    using assms(2) by auto
  have e: "s1\<lparr>UpdateTemperature_XXX := F\<rparr>\<lparr>clock := c2, rx := q2, incoming := inc2,
            trace := trace (s1\<lparr>UpdateTemperature_XXX := F\<rparr>) @ map Write F
               @ Enter_WaitResponse 100 500 # Delay 100 # t2\<rparr>
          = s\<lparr>clock := c2, rx := q2, incoming := inc2,
            trace := trace s @ map Write ClearTemperature_XXX
                       @ Enter_WaitResponse 100 500 # Delay 100 # t1
                       @ map Write F @ Enter_WaitResponse 100 500 # Delay 100 # t2,
            UpdateTemperature_XXX := F\<rparr>"
    by (simp add: s1_def)
  have "UpdateTemperature deg s = Some (s\<lparr>clock := c2, rx := q2, incoming := inc2,
            trace := trace s @ map Write ClearTemperature_XXX
                       @ Enter_WaitResponse 100 500 # Delay 100 # t1
                       @ map Write F @ Enter_WaitResponse 100 500 # Delay 100 # t2,
            UpdateTemperature_XXX := F\<rparr>)"
    using assms(1) d unfolding e
    by (simp add: UpdateTemperature_def c s1_def [symmetric]) (simp add: s1_def)
  with t1 t2 show ?thesis by blast
qed

lemma UpdateHumidity_None:
  "UpdateHumidity_patch hum (UpdateHumidity_XXX s) = None \<Longrightarrow> UpdateHumidity hum s = None"
  using ClearHumidity_returns [of s] by (auto simp: UpdateHumidity_def)

lemma UpdateHumidity_returns:
  assumes "UpdateHumidity_patch hum (UpdateHumidity_XXX s) = Some F" "length F = 30"
  shows "\<exists>c q inc t1 t2.
     UpdateHumidity hum s
       = Some (s\<lparr>clock := c, rx := q, incoming := inc,
            trace := trace s @ map Write ClearHumidity_XXX
                       @ Enter_WaitResponse 100 500 # Delay 100 # t1
                       @ map Write F @ Enter_WaitResponse 100 500 # Delay 100 # t2,
            UpdateHumidity_XXX := F\<rparr>) \<and>
     polling t1 \<and> polling t2"
proof -
  from ClearHumidity_returns [of s] obtain c1 q1 inc1 t1 where
    c: "ClearHumidity s
       = Some (s\<lparr>clock := c1, rx := q1, incoming := inc1,
            trace := trace s @ map Write ClearHumidity_XXX
                       @ Enter_WaitResponse 100 500 # Delay 100 # t1\<rparr>)"
    and t1: "polling t1"
    by blast
  define s1 where "s1 = s\<lparr>clock := c1, rx := q1, incoming := inc1,
            trace := trace s @ map Write ClearHumidity_XXX
                       @ Enter_WaitResponse 100 500 # Delay 100 # t1\<rparr>"
  from send_frame [of F "s1\<lparr>UpdateHumidity_XXX := F\<rparr>"] obtain c2 q2 inc2 t2 where
    d: "map_option snd (WaitResponse 100 500 (WriteCommand F 30 (s1\<lparr>UpdateHumidity_XXX := F\<rparr>)))
       = Some (s1\<lparr>UpdateHumidity_XXX := F\<rparr>\<lparr>clock := c2, rx := q2, incoming := inc2,
            trace := trace (s1\<lparr>UpdateHumidity_XXX := F\<rparr>) @ map Write F
               @ Enter_WaitResponse 100 500 # Delay 100 # t2\<rparr>)"
    and t2: "polling t2"
    using assms(2) by auto
  have e: "s1\<lparr>UpdateHumidity_XXX := F\<rparr>\<lparr>clock := c2, rx := q2, incoming := inc2,
            trace := trace (s1\<lparr>UpdateHumidity_XXX := F\<rparr>) @ map Write F
               @ Enter_WaitResponse 100 500 # Delay 100 # t2\<rparr>
          = s\<lparr>clock := c2, rx := q2, incoming := inc2,
            trace := trace s @ map Write ClearHumidity_XXX
                       @ Enter_WaitResponse 100 500 # Delay 100 # t1
                       @ map Write F @ Enter_WaitResponse 100 500 # Delay 100 # t2,
            UpdateHumidity_XXX := F\<rparr>"
    by (simp add: s1_def)
  have "UpdateHumidity hum s = Some (s\<lparr>clock := c2, rx := q2, incoming := inc2,
            trace := trace s @ map Write ClearHumidity_XXX
                       @ Enter_WaitResponse 100 500 # Delay 100 # t1
                       @ map Write F @ Enter_WaitResponse 100 500 # Delay 100 # t2,
            UpdateHumidity_XXX := F\<rparr>)"
    using assms(1) d unfolding e
    by (simp add: UpdateHumidity_def c s1_def [symmetric]) (simp add: s1_def)
  with t1 t2 show ?thesis by blast
qed

subsection \<open>Conversions and digits\<close>

lemma UpdateHumidity_patch_None:
  "int_of_float hum = None \<Longrightarrow> UpdateHumidity_patch hum XXX = None"
  by (simp add: UpdateHumidity_patch_def)

lemma UpdateHumidity_patch_cases:
  assumes "XXX[22 := 0x30, 23 := 0x30, 28 := 0xDC] = UpdateHumidity_XXX_init"
  shows "UpdateHumidity_patch hum XXX = UpdateHumidity_patch hum UpdateHumidity_XXX_init \<and>
         (\<forall>F. UpdateHumidity_patch hum XXX = Some F \<longrightarrow>
            (\<exists>a b. F = humidity_frame a b (124 + a + b)))"
proof -
  have x: "XXX = humidity_frame (XXX ! 22) (XXX ! 23) (XXX ! 28)"
    using assms by (rule humidity_shape)
  have i: "UpdateHumidity_XXX_init = humidity_frame 0x30 0x30 0xDC"
    by (simp add: humidity_frame_def UpdateHumidity_XXX_init_def byte_of_char_def)
  show ?thesis
  proof (cases "int_of_float hum")
    case None
    then show ?thesis by (simp add: UpdateHumidity_patch_None)
  next
    case (Some whole)
    define a where "a = blank_zero (word_of_int ((whole sdiv 10) smod 10 + 48))"
    define b :: byte where "b = word_of_int (whole smod 10 + 48)"
    note p = UpdateHumidity_patch_frame [OF Some, folded a_def b_def]
    have 1: "UpdateHumidity_patch hum XXX = Some (humidity_frame a b (124 + a + b))"
      by (subst x) (rule p)
    have 2: "UpdateHumidity_patch hum UpdateHumidity_XXX_init
               = Some (humidity_frame a b (124 + a + b))"
      by (subst i) (rule p)
    show ?thesis
      unfolding 1 2 by blast
  qed
qed

lemma int_of_float_in_range:
  "0 \<le> r \<Longrightarrow> r < 100 \<Longrightarrow> int_of_float (Finite r) = Some \<lfloor>r\<rfloor> \<and> 0 \<le> \<lfloor>r\<rfloor> \<and> \<lfloor>r\<rfloor> < 100"
proof -
  assume a: "0 \<le> r" "r < 100"
  then have "0 \<le> \<lfloor>r\<rfloor>" "\<lfloor>r\<rfloor> < 100"
    by (simp_all add: floor_less_iff)
  with a show ?thesis
    by (simp add: int_of_float_def Let_def)
qed

lemma int_of_float_times_10:
  assumes "0 \<le> r" "r < 100"
  shows "int_of_float (fmul (Finite r) (Finite 10)) = Some \<lfloor>round_single (r * 10)\<rfloor> \<and>
         0 \<le> \<lfloor>round_single (r * 10)\<rfloor>"
proof -
  have "0 \<le> r * 10" "r * 10 < 1000"
    using assms by simp_all
  from round_single_below_1000 [OF this]
  have b: "0 \<le> round_single (r * 10)" "round_single (r * 10) < 1001"
    by simp_all
  then have "0 \<le> \<lfloor>round_single (r * 10)\<rfloor>" "\<lfloor>round_single (r * 10)\<rfloor> < 1001"
    by (simp_all add: floor_less_iff)
  with b show ?thesis
    by (simp add: int_of_float_def fmul_def Let_def)
qed

lemma digits_of_whole:
  fixes w :: int
  assumes "0 \<le> w" "w < 100"
  shows "(w sdiv 10) smod 10 = w div 10" "w smod 10 = w mod 10"
proof -
  have "w sdiv 10 = w div 10"
    using assms by (simp add: signed_divide_int_def sgn_if)
  moreover have "0 \<le> w div 10" "w div 10 < 10"
    using assms by simp_all
  moreover have "k smod 10 = k mod 10" if "0 \<le> k" for k :: int
    using that by (simp add: signed_modulo_int_def sgn_if)
  ultimately show "(w sdiv 10) smod 10 = w div 10" "w smod 10 = w mod 10"
    using assms by simp_all
qed

lemma digit_byte_range:
  assumes "0 \<le> k"
  shows "(0x30 :: byte) \<le> word_of_int (k smod 10 + 48) \<and> (word_of_int (k smod 10 + 48) :: byte) \<le> 0x39"
proof -
  have m: "k smod 10 = k mod 10"
    using assms by (simp add: signed_modulo_int_def sgn_if)
  have r: "0 \<le> k mod 10" "k mod 10 < 10"
    by simp_all
  have "k mod 10 = 0 \<or> k mod 10 = 1 \<or> k mod 10 = 2 \<or> k mod 10 = 3 \<or> k mod 10 = 4 \<or>
        k mod 10 = 5 \<or> k mod 10 = 6 \<or> k mod 10 = 7 \<or> k mod 10 = 8 \<or> k mod 10 = 9"
    using r by arith
  then show ?thesis
    unfolding m by auto
qed

lemma patch_18_5:
  "UpdateTemperature_patch (float_of_rat 18.5) UpdateTemperature_XXX_init
     = Some (temperature_frame 0x31 0x38 0x35 0xA6)"
  by code_simp

lemma patch_7_83:
  "UpdateTemperature_patch (float_of_rat 7.83) UpdateTemperature_XXX_init
     = Some (temperature_frame 0x20 0x37 0x38 0x97)"
  by code_simp

lemma patch_23_05:
  "UpdateTemperature_patch (float_of_rat 23.05) UpdateTemperature_XXX_init
     = Some (temperature_frame 0x32 0x33 0x30 0x9D)"
  by code_simp

lemma patch_45:
  "UpdateHumidity_patch (float_of_rat 45.0) UpdateHumidity_XXX_init
     = Some (humidity_frame 0x34 0x35 0xE5)"
  by code_simp

lemma patch_5:
  "UpdateHumidity_patch (float_of_rat 5.0) UpdateHumidity_XXX_init
     = Some (humidity_frame 0x20 0x35 0xD1)"
  by code_simp

subsection \<open>What the display operations send\<close>

lemma sent_call [simp]:
  "sent (Enter_WaitResponse a b # Delay n # t) = sent t"
  by simp

lemma protocol_call [simp]:
  "protocol (Enter_WaitResponse a b # Delay n # t) = Enter_WaitResponse a b # protocol t"
  by simp

lemma UpdateTemperature_Some:
  assumes "buffers_ok s" "UpdateTemperature deg s = Some s'"
  shows "\<exists>a b c t1 t2 k q inc.
     UpdateTemperature_patch deg UpdateTemperature_XXX_init
       = Some (temperature_frame a b c (8 + a + b + c)) \<and>
     s' = s\<lparr>clock := k, rx := q, incoming := inc,
            trace := trace s @ map Write ClearTemperature_XXX
                       @ Enter_WaitResponse 100 500 # Delay 100 # t1
                       @ map Write (temperature_frame a b c (8 + a + b + c))
                       @ Enter_WaitResponse 100 500 # Delay 100 # t2,
            UpdateTemperature_XXX := temperature_frame a b c (8 + a + b + c)\<rparr> \<and>
     polling t1 \<and> polling t2"
proof -
  have inv: "(UpdateTemperature_XXX s)[23 := 0x30, 24 := 0x30, 26 := 0x30, 31 := 0x98]
               = UpdateTemperature_XXX_init"
    using assms(1) by (simp add: buffers_ok_def)
  note pc = UpdateTemperature_patch_cases [OF inv, of deg]
  show ?thesis
  proof (cases "UpdateTemperature_patch deg (UpdateTemperature_XXX s)")
    case None
    then show ?thesis
      using assms(2) by (simp add: UpdateTemperature_None)
  next
    case (Some F)
    with pc obtain a b c where F: "F = temperature_frame a b c (8 + a + b + c)"
      by blast
    have len: "length F = 33"
      by (simp add: F temperature_frame_def)
    from UpdateTemperature_returns [OF Some len] obtain k q inc t1 t2 where
      r: "UpdateTemperature deg s
       = Some (s\<lparr>clock := k, rx := q, incoming := inc,
            trace := trace s @ map Write ClearTemperature_XXX
                       @ Enter_WaitResponse 100 500 # Delay 100 # t1
                       @ map Write F @ Enter_WaitResponse 100 500 # Delay 100 # t2,
            UpdateTemperature_XXX := F\<rparr>)"
      and t: "polling t1" "polling t2"
      by blast
    have "UpdateTemperature_patch deg UpdateTemperature_XXX_init = Some F"
      using pc Some by simp
    moreover have "s' = s\<lparr>clock := k, rx := q, incoming := inc,
            trace := trace s @ map Write ClearTemperature_XXX
                       @ Enter_WaitResponse 100 500 # Delay 100 # t1
                       @ map Write F @ Enter_WaitResponse 100 500 # Delay 100 # t2,
            UpdateTemperature_XXX := F\<rparr>"
      using r assms(2) by simp
    ultimately show ?thesis
      using t unfolding F by blast
  qed
qed

lemma UpdateTemperature_defined:
  assumes "buffers_ok s" "UpdateTemperature_patch deg UpdateTemperature_XXX_init = Some F"
  shows "\<exists>s'. UpdateTemperature deg s = Some s'"
proof -
  have inv: "(UpdateTemperature_XXX s)[23 := 0x30, 24 := 0x30, 26 := 0x30, 31 := 0x98]
               = UpdateTemperature_XXX_init"
    using assms(1) by (simp add: buffers_ok_def)
  note pc = UpdateTemperature_patch_cases [OF inv, of deg]
  with assms(2) have p: "UpdateTemperature_patch deg (UpdateTemperature_XXX s) = Some F"
    by simp
  with pc obtain a b c where F: "F = temperature_frame a b c (8 + a + b + c)"
    by blast
  have len: "length F = 33"
    by (simp add: F temperature_frame_def)
  from UpdateTemperature_returns [OF p len] show ?thesis
    by blast
qed

lemma UpdateHumidity_Some:
  assumes "buffers_ok s" "UpdateHumidity hum s = Some s'"
  shows "\<exists>a b t1 t2 k q inc.
     UpdateHumidity_patch hum UpdateHumidity_XXX_init
       = Some (humidity_frame a b (124 + a + b)) \<and>
     s' = s\<lparr>clock := k, rx := q, incoming := inc,
            trace := trace s @ map Write ClearHumidity_XXX
                       @ Enter_WaitResponse 100 500 # Delay 100 # t1
                       @ map Write (humidity_frame a b (124 + a + b))
                       @ Enter_WaitResponse 100 500 # Delay 100 # t2,
            UpdateHumidity_XXX := humidity_frame a b (124 + a + b)\<rparr> \<and>
     polling t1 \<and> polling t2"
proof -
  have inv: "(UpdateHumidity_XXX s)[22 := 0x30, 23 := 0x30, 28 := 0xDC]
               = UpdateHumidity_XXX_init"
    using assms(1) by (simp add: buffers_ok_def)
  note pc = UpdateHumidity_patch_cases [OF inv, of hum]
  show ?thesis
  proof (cases "UpdateHumidity_patch hum (UpdateHumidity_XXX s)")
    case None
    then show ?thesis
      using assms(2) by (simp add: UpdateHumidity_None)
  next
    case (Some F)
    with pc obtain a b where F: "F = humidity_frame a b (124 + a + b)"
      by blast
    have len: "length F = 30"
      by (simp add: F humidity_frame_def)
    from UpdateHumidity_returns [OF Some len] obtain k q inc t1 t2 where
      r: "UpdateHumidity hum s
       = Some (s\<lparr>clock := k, rx := q, incoming := inc,
            trace := trace s @ map Write ClearHumidity_XXX
                       @ Enter_WaitResponse 100 500 # Delay 100 # t1
                       @ map Write F @ Enter_WaitResponse 100 500 # Delay 100 # t2,
            UpdateHumidity_XXX := F\<rparr>)"
      and t: "polling t1" "polling t2"
      by blast
    have "UpdateHumidity_patch hum UpdateHumidity_XXX_init = Some F"
      using pc Some by simp
    moreover have "s' = s\<lparr>clock := k, rx := q, incoming := inc,
            trace := trace s @ map Write ClearHumidity_XXX
                       @ Enter_WaitResponse 100 500 # Delay 100 # t1
                       @ map Write F @ Enter_WaitResponse 100 500 # Delay 100 # t2,
            UpdateHumidity_XXX := F\<rparr>"
      using r assms(2) by simp
    ultimately show ?thesis
      using t unfolding F by blast
  qed
qed

lemma UpdateHumidity_defined:
  assumes "buffers_ok s" "UpdateHumidity_patch hum UpdateHumidity_XXX_init = Some F"
  shows "\<exists>s'. UpdateHumidity hum s = Some s'"
proof -
  have inv: "(UpdateHumidity_XXX s)[22 := 0x30, 23 := 0x30, 28 := 0xDC]
               = UpdateHumidity_XXX_init"
    using assms(1) by (simp add: buffers_ok_def)
  note pc = UpdateHumidity_patch_cases [OF inv, of hum]
  with assms(2) have p: "UpdateHumidity_patch hum (UpdateHumidity_XXX s) = Some F"
    by simp
  with pc obtain a b where F: "F = humidity_frame a b (124 + a + b)"
    by blast
  have len: "length F = 30"
    by (simp add: F humidity_frame_def)
  from UpdateHumidity_returns [OF p len] show ?thesis
    by blast
qed

lemma buffers_ok_power_on: "buffers_ok (power_on arriving)"
  by (simp add: buffers_ok_def power_on_def UpdateTemperature_XXX_init_def
        UpdateHumidity_XXX_init_def byte_of_char_def)

lemma UpdateTemperature_sent:
  assumes "buffers_ok s" "UpdateTemperature deg s = Some s'"
  shows "\<exists>F. UpdateTemperature_patch deg UpdateTemperature_XXX_init = Some F \<and>
     length F = 33 \<and> checksum_ok F \<and> buffers_ok s' \<and>
     sent (trace s') = sent (trace s) @ ClearTemperature_XXX @ F \<and>
     protocol (trace s') = protocol (trace s) @ map Write ClearTemperature_XXX
        @ [Enter_WaitResponse 100 500] @ map Write F @ [Enter_WaitResponse 100 500] \<and>
     UpdateTemperature_XXX s' = F"
proof -
  from UpdateTemperature_Some [OF assms] obtain a b c t1 t2 k q inc where
    p: "UpdateTemperature_patch deg UpdateTemperature_XXX_init
       = Some (temperature_frame a b c (8 + a + b + c))"
    and s': "s' = s\<lparr>clock := k, rx := q, incoming := inc,
            trace := trace s @ map Write ClearTemperature_XXX
                       @ Enter_WaitResponse 100 500 # Delay 100 # t1
                       @ map Write (temperature_frame a b c (8 + a + b + c))
                       @ Enter_WaitResponse 100 500 # Delay 100 # t2,
            UpdateTemperature_XXX := temperature_frame a b c (8 + a + b + c)\<rparr>"
    and t: "polling t1" "polling t2"
    by blast
  have "buffers_ok s'"
    using assms(1) by (simp add: s' buffers_ok_def temperature_frame_ok)
  moreover have "length (temperature_frame a b c (8 + a + b + c)) = 33"
    by (simp add: temperature_frame_def)
  ultimately show ?thesis
    using p t checksum_ok_temperature_frame [of a b c]
    by (intro exI [of _ "temperature_frame a b c (8 + a + b + c)"]) (simp add: s')
qed

lemma UpdateHumidity_sent:
  assumes "buffers_ok s" "UpdateHumidity hum s = Some s'"
  shows "\<exists>F. UpdateHumidity_patch hum UpdateHumidity_XXX_init = Some F \<and>
     length F = 30 \<and> checksum_ok F \<and> buffers_ok s' \<and>
     sent (trace s') = sent (trace s) @ ClearHumidity_XXX @ F \<and>
     protocol (trace s') = protocol (trace s) @ map Write ClearHumidity_XXX
        @ [Enter_WaitResponse 100 500] @ map Write F @ [Enter_WaitResponse 100 500] \<and>
     UpdateHumidity_XXX s' = F"
proof -
  from UpdateHumidity_Some [OF assms] obtain a b t1 t2 k q inc where
    p: "UpdateHumidity_patch hum UpdateHumidity_XXX_init
       = Some (humidity_frame a b (124 + a + b))"
    and s': "s' = s\<lparr>clock := k, rx := q, incoming := inc,
            trace := trace s @ map Write ClearHumidity_XXX
                       @ Enter_WaitResponse 100 500 # Delay 100 # t1
                       @ map Write (humidity_frame a b (124 + a + b))
                       @ Enter_WaitResponse 100 500 # Delay 100 # t2,
            UpdateHumidity_XXX := humidity_frame a b (124 + a + b)\<rparr>"
    and t: "polling t1" "polling t2"
    by blast
  have "buffers_ok s'"
    using assms(1) by (simp add: s' buffers_ok_def humidity_frame_ok)
  moreover have "length (humidity_frame a b (124 + a + b)) = 30"
    by (simp add: humidity_frame_def)
  ultimately show ?thesis
    using p t checksum_ok_humidity_frame [of a b]
    by (intro exI [of _ "humidity_frame a b (124 + a + b)"]) (simp add: s')
qed

lemma UpdateScreen_sent:
  "\<exists>s'. UpdateScreen s = Some s' \<and> (buffers_ok s \<longrightarrow> buffers_ok s') \<and>
     sent (trace s') = sent (trace s) @ UpdateScreen_XXX \<and>
     protocol (trace s') = protocol (trace s) @ map Write UpdateScreen_XXX
        @ [Enter_WaitResponse 100 500]"
proof -
  from UpdateScreen_returns [of s] obtain c q inc t where
    "UpdateScreen s
       = Some (s\<lparr>clock := c, rx := q, incoming := inc,
            trace := trace s @ map Write UpdateScreen_XXX
                       @ Enter_WaitResponse 100 500 # Delay 100 # t\<rparr>)"
    "polling t"
    by blast
  then show ?thesis
    by (simp add: buffers_ok_def)
qed

subsection \<open>Checksums of the transmitted frames\<close>

lemma static_frames_ok:
  "checksum_ok ClearTemperature_XXX" "checksum_ok ClearHumidity_XXX" "checksum_ok UpdateScreen_XXX"
  by (simp_all add: checksum_ok_def ClearTemperature_XXX_def ClearHumidity_XXX_def
        UpdateScreen_XXX_def)

lemma buffers_ok_delay [simp]: "buffers_ok (delay n s) = buffers_ok s"
  by (simp add: buffers_ok_def delay_def)

lemma sent_delay [simp]: "sent (trace (delay n s)) = sent (trace s)"
  by (simp add: delay_def)

lemma loop_sent:
  assumes "buffers_ok s" "\<not> isnan h" "\<not> isnan t" "loop h t s = Some s'"
  shows "\<exists>FT FH. UpdateTemperature_patch t UpdateTemperature_XXX_init = Some FT \<and>
     UpdateHumidity_patch h UpdateHumidity_XXX_init = Some FH \<and>
     sent (trace s') = sent (trace s) @ ClearTemperature_XXX @ FT @ ClearHumidity_XXX @ FH
                         @ UpdateScreen_XXX \<and>
     length FT = 33 \<and> checksum_ok FT \<and> length FH = 30 \<and> checksum_ok FH \<and> buffers_ok s'"
proof -
  from assms(2-4) obtain s1 s2 where
    1: "UpdateTemperature t (delay MIN_READ_PERIOD s) = Some s1" and
    2: "UpdateHumidity h s1 = Some s2" and
    3: "UpdateScreen s2 = Some s'"
    by (auto simp: loop_def Let_def split: Option.bind_splits)
  from UpdateTemperature_sent [OF _ 1] assms(1) obtain FT where
    ft: "UpdateTemperature_patch t UpdateTemperature_XXX_init = Some FT"
      "length FT = 33" "checksum_ok FT" "buffers_ok s1"
      "sent (trace s1) = sent (trace s) @ ClearTemperature_XXX @ FT"
    by auto
  from UpdateHumidity_sent [OF ft(4) 2] obtain FH where
    fh: "UpdateHumidity_patch h UpdateHumidity_XXX_init = Some FH"
      "length FH = 30" "checksum_ok FH" "buffers_ok s2"
      "sent (trace s2) = sent (trace s1) @ ClearHumidity_XXX @ FH"
    by auto
  from UpdateScreen_sent [of s2] 3 fh(4) have
    "buffers_ok s'" "sent (trace s') = sent (trace s2) @ UpdateScreen_XXX"
    by auto
  with ft fh show ?thesis
    by simp
qed

lemma loop_defined:
  assumes "buffers_ok s" "\<not> isnan h" "\<not> isnan t"
    "UpdateTemperature_patch t UpdateTemperature_XXX_init = Some FT"
    "UpdateHumidity_patch h UpdateHumidity_XXX_init = Some FH"
  shows "\<exists>s'. loop h t s = Some s'"
proof -
  have "buffers_ok (delay MIN_READ_PERIOD s)"
    using assms(1) by simp
  from UpdateTemperature_defined [OF this assms(4)] obtain s1 where
    1: "UpdateTemperature t (delay MIN_READ_PERIOD s) = Some s1"
    by blast
  from UpdateTemperature_sent [OF _ 1] assms(1) have "buffers_ok s1"
    by auto
  from UpdateHumidity_defined [OF this assms(5)] obtain s2 where
    2: "UpdateHumidity h s1 = Some s2"
    by blast
  from UpdateScreen_sent [of s2] obtain s' where "UpdateScreen s2 = Some s'"
    by blast
  with 1 2 assms(2,3) show ?thesis
    by (simp add: loop_def Let_def)
qed

text \<open>
  Claim C1. In every command frame the sketch transmits, the byte at offset length - 2 is
  the sum of the bytes at offsets 0 to length - 3, mod 256: the three fixed frames (clear
  temperature and clear humidity, 16 bytes; flip, 20 bytes) carry the right constant, and
  the 33-byte temperature frame and the 30-byte humidity frame carry the checksum of
  their patched bytes. This is stated of the bytes written to the port: by
  \<^verbatim>\<open>UpdateTemperature\<close>, by \<^verbatim>\<open>UpdateHumidity\<close>, by \<^verbatim>\<open>UpdateScreen\<close>, and by a
  whole run of \<^verbatim>\<open>loop\<close> with two readings that are numbers, from any state whose
  static buffers are as some earlier call left them.
\<close>

theorem transmitted_frames_checksum:
  "checksum_ok ClearTemperature_XXX \<and> length ClearTemperature_XXX = 16 \<and>
   checksum_ok ClearHumidity_XXX \<and> length ClearHumidity_XXX = 16 \<and>
   checksum_ok UpdateScreen_XXX \<and> length UpdateScreen_XXX = 20 \<and>
   (\<forall>s deg s'. buffers_ok s \<and> UpdateTemperature deg s = Some s' \<longrightarrow>
      (\<exists>F. sent (trace s') = sent (trace s) @ ClearTemperature_XXX @ F \<and>
         length F = 33 \<and> checksum_ok F \<and> buffers_ok s')) \<and>
   (\<forall>s hum s'. buffers_ok s \<and> UpdateHumidity hum s = Some s' \<longrightarrow>
      (\<exists>F. sent (trace s') = sent (trace s) @ ClearHumidity_XXX @ F \<and>
         length F = 30 \<and> checksum_ok F \<and> buffers_ok s')) \<and>
   (\<forall>s. \<exists>s'. UpdateScreen s = Some s' \<and> sent (trace s') = sent (trace s) @ UpdateScreen_XXX) \<and>
   (\<forall>s h t s'. buffers_ok s \<and> \<not> isnan h \<and> \<not> isnan t \<and> loop h t s = Some s' \<longrightarrow>
      (\<exists>FT FH. sent (trace s') = sent (trace s) @ ClearTemperature_XXX @ FT
                   @ ClearHumidity_XXX @ FH @ UpdateScreen_XXX \<and>
         length FT = 33 \<and> checksum_ok FT \<and> length FH = 30 \<and> checksum_ok FH \<and>
         buffers_ok s'))"
proof (intro conjI allI impI)
  show "checksum_ok ClearTemperature_XXX" "checksum_ok ClearHumidity_XXX"
    "checksum_ok UpdateScreen_XXX"
    by (rule static_frames_ok)+
  show "length ClearTemperature_XXX = 16" "length ClearHumidity_XXX = 16"
    "length UpdateScreen_XXX = 20"
    by (simp_all add: ClearTemperature_XXX_def ClearHumidity_XXX_def UpdateScreen_XXX_def)
next
  fix s deg s'
  assume "buffers_ok s \<and> UpdateTemperature deg s = Some s'"
  then show "\<exists>F. sent (trace s') = sent (trace s) @ ClearTemperature_XXX @ F \<and>
         length F = 33 \<and> checksum_ok F \<and> buffers_ok s'"
    using UpdateTemperature_sent [of s deg s'] by blast
next
  fix s hum s'
  assume "buffers_ok s \<and> UpdateHumidity hum s = Some s'"
  then show "\<exists>F. sent (trace s') = sent (trace s) @ ClearHumidity_XXX @ F \<and>
         length F = 30 \<and> checksum_ok F \<and> buffers_ok s'"
    using UpdateHumidity_sent [of s hum s'] by blast
next
  fix s
  show "\<exists>s'. UpdateScreen s = Some s' \<and> sent (trace s') = sent (trace s) @ UpdateScreen_XXX"
    using UpdateScreen_sent [of s] by blast
next
  fix s h t s'
  assume "buffers_ok s \<and> \<not> isnan h \<and> \<not> isnan t \<and> loop h t s = Some s'"
  then show "\<exists>FT FH. sent (trace s') = sent (trace s) @ ClearTemperature_XXX @ FT
                   @ ClearHumidity_XXX @ FH @ UpdateScreen_XXX \<and>
         length FT = 33 \<and> checksum_ok FT \<and> length FH = 30 \<and> checksum_ok FH \<and>
         buffers_ok s'"
    using loop_sent [of s h t s'] by blast
qed

theorem transmitted_frames_checksum_witness:
  "buffers_ok (power_on []) \<and> \<not> isnan (float_of_rat 45.0) \<and> \<not> isnan (float_of_rat 18.5) \<and>
   (\<exists>s' FT FH. loop (float_of_rat 45.0) (float_of_rat 18.5) (power_on []) = Some s' \<and>
      sent (trace s') = sent (trace (power_on [])) @ ClearTemperature_XXX @ FT
                   @ ClearHumidity_XXX @ FH @ UpdateScreen_XXX \<and>
      length FT = 33 \<and> checksum_ok FT \<and> length FH = 30 \<and> checksum_ok FH) \<and>
   (\<exists>s' F. UpdateTemperature (float_of_rat 18.5) (power_on []) = Some s' \<and>
      sent (trace s') = sent (trace (power_on [])) @ ClearTemperature_XXX @ F \<and>
      length F = 33 \<and> checksum_ok F) \<and>
   (\<exists>s' F. UpdateHumidity (float_of_rat 45.0) (power_on []) = Some s' \<and>
      sent (trace s') = sent (trace (power_on [])) @ ClearHumidity_XXX @ F \<and>
      length F = 30 \<and> checksum_ok F)"
proof -
  have b: "buffers_ok (power_on [])"
    by (rule buffers_ok_power_on)
  have n: "\<not> isnan (float_of_rat 45.0)" "\<not> isnan (float_of_rat 18.5)"
    by (simp_all add: float_of_rat_def)
  from loop_defined [OF b n patch_18_5 patch_45] obtain s' where
    l: "loop (float_of_rat 45.0) (float_of_rat 18.5) (power_on []) = Some s'"
    by blast
  from UpdateTemperature_defined [OF b patch_18_5] obtain s1 where
    t: "UpdateTemperature (float_of_rat 18.5) (power_on []) = Some s1"
    by blast
  from UpdateHumidity_defined [OF b patch_45] obtain s2 where
    h: "UpdateHumidity (float_of_rat 45.0) (power_on []) = Some s2"
    by blast
  note c = transmitted_frames_checksum
  from c b n l have 1: "\<exists>s' FT FH. loop (float_of_rat 45.0) (float_of_rat 18.5) (power_on []) = Some s' \<and>
      sent (trace s') = sent (trace (power_on [])) @ ClearTemperature_XXX @ FT
                   @ ClearHumidity_XXX @ FH @ UpdateScreen_XXX \<and>
      length FT = 33 \<and> checksum_ok FT \<and> length FH = 30 \<and> checksum_ok FH"
    by blast
  from c b t have 2: "\<exists>s' F. UpdateTemperature (float_of_rat 18.5) (power_on []) = Some s' \<and>
      sent (trace s') = sent (trace (power_on [])) @ ClearTemperature_XXX @ F \<and>
      length F = 33 \<and> checksum_ok F"
    by blast
  from c b h have 3: "\<exists>s' F. UpdateHumidity (float_of_rat 45.0) (power_on []) = Some s' \<and>
      sent (trace s') = sent (trace (power_on [])) @ ClearHumidity_XXX @ F \<and>
      length F = 30 \<and> checksum_ok F"
    by blast
  from b n 1 2 3 show ?thesis
    by blast
qed

subsection \<open>Updating the temperature field\<close>

text \<open>
  Claim C6. \<^verbatim>\<open>UpdateTemperature(18.5)\<close> returns, and what it writes and the calls of
  \<^verbatim>\<open>WaitResponse\<close> it makes are, in order: the 16 bytes of the clear-temperature
  frame, \<^verbatim>\<open>WaitResponse(100, 500)\<close>, the 33 bytes of the draw frame,
  \<^verbatim>\<open>WaitResponse(100, 500)\<close>. The draw frame is the template with \<^verbatim>\<open>'1'\<close>,
  \<^verbatim>\<open>'8'\<close>, \<^verbatim>\<open>'5'\<close> at offsets 23, 24, 26 and, at offset 31, the checksum of its
  first 31 bytes (0xA6).
\<close>

theorem UpdateTemperature_18_5:
  "buffers_ok s \<longrightarrow>
     (\<exists>s' F. UpdateTemperature (float_of_rat 18.5) s = Some s' \<and>
        protocol (trace s') = protocol (trace s) @ map Write ClearTemperature_XXX
           @ [Enter_WaitResponse 100 500] @ map Write F @ [Enter_WaitResponse 100 500] \<and>
        length ClearTemperature_XXX = 16 \<and> length F = 33 \<and>
        F ! 23 = byte_of_char CHR ''1'' \<and> F ! 24 = byte_of_char CHR ''8'' \<and>
        F ! 26 = byte_of_char CHR ''5'' \<and> F ! 31 = CheckSum F 31 \<and>
        F = UpdateTemperature_XXX_init
              [23 := byte_of_char CHR ''1'', 24 := byte_of_char CHR ''8'',
               26 := byte_of_char CHR ''5'', 31 := 0xA6])"
proof
  assume b: "buffers_ok s"
  from UpdateTemperature_defined [OF b patch_18_5] obtain s' where
    u: "UpdateTemperature (float_of_rat 18.5) s = Some s'"
    by blast
  from UpdateTemperature_sent [OF b u] obtain G where
    g: "UpdateTemperature_patch (float_of_rat 18.5) UpdateTemperature_XXX_init = Some G"
    and pg: "protocol (trace s') = protocol (trace s) @ map Write ClearTemperature_XXX
        @ [Enter_WaitResponse 100 500] @ map Write G @ [Enter_WaitResponse 100 500]"
    by blast
  have "G = temperature_frame 0x31 0x38 0x35 0xA6"
    using g patch_18_5 by simp
  with pg have
    p: "protocol (trace s') = protocol (trace s) @ map Write ClearTemperature_XXX
        @ [Enter_WaitResponse 100 500] @ map Write (temperature_frame 0x31 0x38 0x35 0xA6)
        @ [Enter_WaitResponse 100 500]"
    by simp
  have c: "CheckSum (temperature_frame 0x31 0x38 0x35 0xA6) 31 = 0xA6"
    by (simp add: CheckSum_temperature_frame)
  have f: "temperature_frame 0x31 0x38 0x35 0xA6 ! 23 = byte_of_char CHR ''1''"
    "temperature_frame 0x31 0x38 0x35 0xA6 ! 24 = byte_of_char CHR ''8''"
    "temperature_frame 0x31 0x38 0x35 0xA6 ! 26 = byte_of_char CHR ''5''"
    "temperature_frame 0x31 0x38 0x35 0xA6 ! 31 = 0xA6"
    "length (temperature_frame 0x31 0x38 0x35 0xA6) = 33"
    "temperature_frame 0x31 0x38 0x35 0xA6 = UpdateTemperature_XXX_init
              [23 := byte_of_char CHR ''1'', 24 := byte_of_char CHR ''8'',
               26 := byte_of_char CHR ''5'', 31 := 0xA6]"
    by (simp_all add: temperature_frame_def byte_of_char_def UpdateTemperature_XXX_init_def)
  have l: "length ClearTemperature_XXX = 16"
    by (simp add: ClearTemperature_XXX_def)
  show "\<exists>s' F. UpdateTemperature (float_of_rat 18.5) s = Some s' \<and>
        protocol (trace s') = protocol (trace s) @ map Write ClearTemperature_XXX
           @ [Enter_WaitResponse 100 500] @ map Write F @ [Enter_WaitResponse 100 500] \<and>
        length ClearTemperature_XXX = 16 \<and> length F = 33 \<and>
        F ! 23 = byte_of_char CHR ''1'' \<and> F ! 24 = byte_of_char CHR ''8'' \<and>
        F ! 26 = byte_of_char CHR ''5'' \<and> F ! 31 = CheckSum F 31 \<and>
        F = UpdateTemperature_XXX_init
              [23 := byte_of_char CHR ''1'', 24 := byte_of_char CHR ''8'',
               26 := byte_of_char CHR ''5'', 31 := 0xA6]"
  proof (intro exI [of _ s'] exI [of _ "temperature_frame 0x31 0x38 0x35 0xA6"] conjI)
    show "temperature_frame 0x31 0x38 0x35 0xA6 ! 31
            = CheckSum (temperature_frame 0x31 0x38 0x35 0xA6) 31"
      by (simp only: c f(4))
  qed (fact u p l f)+
qed

theorem UpdateTemperature_18_5_witness:
  "buffers_ok (power_on []) \<and>
   (\<exists>s' F. UpdateTemperature (float_of_rat 18.5) (power_on []) = Some s' \<and>
      protocol (trace s') = map Write ClearTemperature_XXX
           @ [Enter_WaitResponse 100 500] @ map Write F @ [Enter_WaitResponse 100 500] \<and>
      F ! 23 = byte_of_char CHR ''1'' \<and> F ! 24 = byte_of_char CHR ''8'' \<and>
      F ! 26 = byte_of_char CHR ''5'' \<and> F ! 31 = CheckSum F 31)"
proof -
  have b: "buffers_ok (power_on [])"
    by (rule buffers_ok_power_on)
  have t: "protocol (trace (power_on [])) = []"
    by (simp add: power_on_def)
  from UpdateTemperature_18_5 [of "power_on []"] b obtain s' F where
    "UpdateTemperature (float_of_rat 18.5) (power_on []) = Some s'"
    "protocol (trace s') = protocol (trace (power_on [])) @ map Write ClearTemperature_XXX
           @ [Enter_WaitResponse 100 500] @ map Write F @ [Enter_WaitResponse 100 500]"
    "F ! 23 = byte_of_char CHR ''1''" "F ! 24 = byte_of_char CHR ''8''"
    "F ! 26 = byte_of_char CHR ''5''" "F ! 31 = CheckSum F 31"
    by blast
  with b show ?thesis
    unfolding t by (intro conjI exI [of _ s'] exI [of _ F]) simp_all
qed

text \<open>
  Claim C8. Two calls of \<^verbatim>\<open>UpdateTemperature\<close> in a row with the same value write the
  same bytes: the clear frame and one and the same draw frame, both times. The patched
  static buffer carries nothing from the first call into the second. For a value in the
  intended range (0 up to, not including, 100) both calls return.
\<close>

theorem UpdateTemperature_twice_same_frames:
  "(buffers_ok s \<and> UpdateTemperature deg s = Some s1 \<and> UpdateTemperature deg s1 = Some s2 \<longrightarrow>
      (\<exists>F. length F = 33 \<and>
         sent (trace s1) = sent (trace s) @ ClearTemperature_XXX @ F \<and>
         sent (trace s2) = sent (trace s1) @ ClearTemperature_XXX @ F)) \<and>
   (buffers_ok s \<and> 0 \<le> r \<and> r < 100 \<longrightarrow>
      (\<exists>s1 s2. UpdateTemperature (Finite r) s = Some s1 \<and>
         UpdateTemperature (Finite r) s1 = Some s2))"
proof (intro conjI impI)
  assume a: "buffers_ok s \<and> UpdateTemperature deg s = Some s1 \<and> UpdateTemperature deg s1 = Some s2"
  from UpdateTemperature_sent [of s deg s1] a obtain F where
    1: "UpdateTemperature_patch deg UpdateTemperature_XXX_init = Some F" "length F = 33"
      "buffers_ok s1" "sent (trace s1) = sent (trace s) @ ClearTemperature_XXX @ F"
    by auto
  from UpdateTemperature_sent [OF 1(3), of deg s2] a 1(1)
  have "sent (trace s2) = sent (trace s1) @ ClearTemperature_XXX @ F"
    by auto
  with 1 show "\<exists>F. length F = 33 \<and>
         sent (trace s1) = sent (trace s) @ ClearTemperature_XXX @ F \<and>
         sent (trace s2) = sent (trace s1) @ ClearTemperature_XXX @ F"
    by blast
next
  assume a: "buffers_ok s \<and> 0 \<le> r \<and> r < 100"
  have i: "UpdateTemperature_XXX_init = temperature_frame 0x30 0x30 0x30 0x98"
    by (simp add: temperature_frame_def UpdateTemperature_XXX_init_def byte_of_char_def)
  from int_of_float_times_10 [of r] int_of_float_in_range [of r] a
  obtain F where p: "UpdateTemperature_patch (Finite r) UpdateTemperature_XXX_init = Some F"
    unfolding i using UpdateTemperature_patch_frame [of "Finite r"] by blast
  from UpdateTemperature_defined [OF _ p] a obtain s1 where
    1: "UpdateTemperature (Finite r) s = Some s1"
    by blast
  from UpdateTemperature_sent [OF _ 1] a have "buffers_ok s1"
    by auto
  from UpdateTemperature_defined [OF this p] 1
  show "\<exists>s1 s2. UpdateTemperature (Finite r) s = Some s1 \<and>
         UpdateTemperature (Finite r) s1 = Some s2"
    by blast
qed

theorem UpdateTemperature_twice_same_frames_witness:
  "buffers_ok (power_on []) \<and> (0 :: rat) \<le> 18.5 \<and> (18.5 :: rat) < 100 \<and>
   (\<exists>s1 s2 F. UpdateTemperature (Finite 18.5) (power_on []) = Some s1 \<and>
      UpdateTemperature (Finite 18.5) s1 = Some s2 \<and> length F = 33 \<and>
      sent (trace s1) = sent (trace (power_on [])) @ ClearTemperature_XXX @ F \<and>
      sent (trace s2) = sent (trace s1) @ ClearTemperature_XXX @ F)"
proof -
  have b: "buffers_ok (power_on [])"
    by (rule buffers_ok_power_on)
  have r: "(0 :: rat) \<le> 18.5" "(18.5 :: rat) < 100"
    by simp_all
  from UpdateTemperature_twice_same_frames [of "power_on []" _ _ _ "18.5"] b r
  obtain s1 s2 where
    u: "UpdateTemperature (Finite 18.5) (power_on []) = Some s1"
      "UpdateTemperature (Finite 18.5) s1 = Some s2"
    by blast
  with UpdateTemperature_twice_same_frames [of "power_on []" "Finite 18.5" s1 s2] b
  obtain F where "length F = 33"
    "sent (trace s1) = sent (trace (power_on [])) @ ClearTemperature_XXX @ F"
    "sent (trace s2) = sent (trace s1) @ ClearTemperature_XXX @ F"
    by blast
  with b r u show ?thesis
    by blast
qed

subsection \<open>A failed sensor reading\<close>

lemma Serial_println_trace:
  "foldl (\<lambda>s c. Serial_write (byte_of_char c) s) s cs
     = s\<lparr>trace := trace s @ map Write (map byte_of_char cs)\<rparr>"
  by (induction cs arbitrary: s) (simp_all add: Serial_write_def)

text \<open>
  Claim C9. When the humidity or the temperature reading is not-a-number, \<^verbatim>\<open>loop\<close>
  returns after its 2000 ms delay having sent no command frame: all it does is write the
  text line \<^verbatim>\<open>Failed to read from DHT sensor!\<close> to the serial port. That line has no
  byte 0x01, the first byte of every command frame; \<^verbatim>\<open>WaitResponse\<close> is not entered
  and the static buffers are untouched. The next run of \<^verbatim>\<open>loop\<close> starts from there.
\<close>

theorem loop_skips_cycle_on_NaN:
  "isnan h \<or> isnan t \<longrightarrow>
     (\<exists>s'. loop h t s = Some s' \<and>
        trace s' = trace s @ Delay 2000
           # map Write (map byte_of_char (''Failed to read from DHT sensor!'' @ [CHR 0x0D, CHR 0x0A])) \<and>
        protocol (trace s') = protocol (trace s)
           @ map Write (map byte_of_char (''Failed to read from DHT sensor!'' @ [CHR 0x0D, CHR 0x0A])) \<and>
        0x01 \<notin> set (map byte_of_char (''Failed to read from DHT sensor!'' @ [CHR 0x0D, CHR 0x0A])) \<and>
        clock s' = clock s + 2000 \<and>
        UpdateTemperature_XXX s' = UpdateTemperature_XXX s \<and>
        UpdateHumidity_XXX s' = UpdateHumidity_XXX s) \<and>
     hd ClearTemperature_XXX = 0x01 \<and> hd ClearHumidity_XXX = 0x01 \<and> hd UpdateScreen_XXX = 0x01 \<and>
     (\<forall>a b c d. hd (temperature_frame a b c d) = 0x01) \<and>
     (\<forall>a b d. hd (humidity_frame a b d) = 0x01)"
proof
  assume n: "isnan h \<or> isnan t"
  define msg where "msg = map byte_of_char (''Failed to read from DHT sensor!'' @ [CHR 0x0D, CHR 0x0A])"
  have l: "loop h t s = Some ((delay 2000 s)\<lparr>trace := trace (delay 2000 s) @ map Write msg\<rparr>)"
    using n unfolding loop_def Let_def Serial_println_def Serial_println_trace msg_def
    by (simp add: MIN_READ_PERIOD_def)
  have m: "0x01 \<notin> set msg"
    unfolding msg_def by (simp add: byte_of_char_def)
  have h: "hd ClearTemperature_XXX = 0x01" "hd ClearHumidity_XXX = 0x01" "hd UpdateScreen_XXX = 0x01"
    "\<forall>a b c d. hd (temperature_frame a b c d) = 0x01" "\<forall>a b d. hd (humidity_frame a b d) = 0x01"
    by (simp_all add: ClearTemperature_XXX_def ClearHumidity_XXX_def UpdateScreen_XXX_def
          temperature_frame_def humidity_frame_def)
  show "(\<exists>s'. loop h t s = Some s' \<and>
        trace s' = trace s @ Delay 2000
           # map Write (map byte_of_char (''Failed to read from DHT sensor!'' @ [CHR 0x0D, CHR 0x0A])) \<and>
        protocol (trace s') = protocol (trace s)
           @ map Write (map byte_of_char (''Failed to read from DHT sensor!'' @ [CHR 0x0D, CHR 0x0A])) \<and>
        0x01 \<notin> set (map byte_of_char (''Failed to read from DHT sensor!'' @ [CHR 0x0D, CHR 0x0A])) \<and>
        clock s' = clock s + 2000 \<and>
        UpdateTemperature_XXX s' = UpdateTemperature_XXX s \<and>
        UpdateHumidity_XXX s' = UpdateHumidity_XXX s) \<and>
     hd ClearTemperature_XXX = 0x01 \<and> hd ClearHumidity_XXX = 0x01 \<and> hd UpdateScreen_XXX = 0x01 \<and>
     (\<forall>a b c d. hd (temperature_frame a b c d) = 0x01) \<and>
     (\<forall>a b d. hd (humidity_frame a b d) = 0x01)"
    unfolding msg_def [symmetric] l using m h
    by (simp add: delay_def)
qed

theorem loop_skips_cycle_on_NaN_witness:
  "(isnan NaN \<or> isnan (float_of_rat 18.5)) \<and>
   (\<exists>s'. loop NaN (float_of_rat 18.5) (power_on [[ACK]]) = Some s' \<and>
      trace s' = Delay 2000
           # map Write (map byte_of_char (''Failed to read from DHT sensor!'' @ [CHR 0x0D, CHR 0x0A])) \<and>
      clock s' = 2000)"
  using loop_skips_cycle_on_NaN [of NaN "float_of_rat 18.5" "power_on [[ACK]]"]
  by (auto simp: power_on_def)

subsection \<open>Digit rendering\<close>

lemma tens_byte:
  fixes k :: int
  assumes "0 \<le> k" "k < 10"
  shows "blank_zero (word_of_int (k + 48))
           = (if k = 0 then byte_of_char CHR '' '' else word_of_int (k + 48))"
proof -
  have "k = 0 \<or> k = 1 \<or> k = 2 \<or> k = 3 \<or> k = 4 \<or> k = 5 \<or> k = 6 \<or> k = 7 \<or> k = 8 \<or> k = 9"
    using assms by arith
  then show ?thesis
    by (auto simp: blank_zero_def byte_of_char_def)
qed

lemma temperature_digits:
  assumes "(XXX :: byte list)[23 := 0x30, 24 := 0x30, 26 := 0x30, 31 := 0x98] = UpdateTemperature_XXX_init"
    "0 \<le> r" "r < 100"
  shows "\<exists>F. UpdateTemperature_patch (Finite r) XXX = Some F \<and>
      F ! 23 = (if \<lfloor>r\<rfloor> div 10 = 0 then byte_of_char CHR '' ''
                else word_of_int (\<lfloor>r\<rfloor> div 10 + 48)) \<and>
      F ! 24 = word_of_int (\<lfloor>r\<rfloor> mod 10 + 48) \<and>
      F ! 26 = word_of_int (\<lfloor>round_single (r * 10)\<rfloor> mod 10 + 48) \<and>
      byte_of_char CHR ''0'' \<le> F ! 24 \<and> F ! 24 \<le> byte_of_char CHR ''9'' \<and>
      byte_of_char CHR ''0'' \<le> F ! 26 \<and> F ! 26 \<le> byte_of_char CHR ''9''"
proof -
  define w where "w = \<lfloor>r\<rfloor>"
  define t where "t = \<lfloor>round_single (r * 10)\<rfloor>"
  have w: "int_of_float (Finite r) = Some w" "0 \<le> w" "w < 100"
    using int_of_float_in_range [OF assms(2,3)] by (simp_all add: w_def)
  have t: "int_of_float (fmul (Finite r) (Finite 10)) = Some t" "0 \<le> t"
    using int_of_float_times_10 [OF assms(2,3)] by (simp_all add: t_def)
  have x: "XXX = temperature_frame (XXX ! 23) (XXX ! 24) (XXX ! 26) (XXX ! 31)"
    using assms(1) by (rule temperature_shape)
  note d = digits_of_whole [OF w(2,3)]
  have tm: "t smod 10 = t mod 10"
    using t(2) by (simp add: signed_modulo_int_def sgn_if)
  have k: "0 \<le> w div 10" "w div 10 < 10"
    using w(2,3) by simp_all
  define F where "F = temperature_frame
                (blank_zero (word_of_int (w div 10 + 48)))
                (word_of_int (w mod 10 + 48))
                (word_of_int (t mod 10 + 48))
                (8 + blank_zero (word_of_int (w div 10 + 48))
                   + word_of_int (w mod 10 + 48) + word_of_int (t mod 10 + 48))"
  have p: "UpdateTemperature_patch (Finite r) XXX = Some F"
    using UpdateTemperature_patch_frame [OF t(1) w(1), of "XXX ! 23" "XXX ! 24" "XXX ! 26" "XXX ! 31"]
    unfolding d tm x [symmetric] F_def .
  have n: "F ! 23 = blank_zero (word_of_int (w div 10 + 48))"
    "F ! 24 = word_of_int (w mod 10 + 48)" "F ! 26 = word_of_int (t mod 10 + 48)"
    by (simp_all add: F_def temperature_frame_def)
  have r1: "(0x30 :: byte) \<le> word_of_int (w mod 10 + 48) \<and> (word_of_int (w mod 10 + 48) :: byte) \<le> 0x39"
    using digit_byte_range [OF w(2)] d(2) by simp
  have r2: "(0x30 :: byte) \<le> word_of_int (t mod 10 + 48) \<and> (word_of_int (t mod 10 + 48) :: byte) \<le> 0x39"
    using digit_byte_range [OF t(2)] tm by simp
  have n23: "F ! 23 = (if w div 10 = 0 then byte_of_char CHR '' ''
                else word_of_int (w div 10 + 48))"
    by (simp only: n(1) tens_byte [OF k])
  show ?thesis
    unfolding w_def [symmetric] t_def [symmetric]
    using p r1 r2 n23 n(2,3) by (intro exI [of _ F]) (simp add: byte_of_char_def)
qed

lemma humidity_digits:
  assumes "(XXX :: byte list)[22 := 0x30, 23 := 0x30, 28 := 0xDC] = UpdateHumidity_XXX_init"
    "0 \<le> r" "r < 100"
  shows "\<exists>F. UpdateHumidity_patch (Finite r) XXX = Some F \<and>
      F ! 22 = (if \<lfloor>r\<rfloor> div 10 = 0 then byte_of_char CHR '' ''
                else word_of_int (\<lfloor>r\<rfloor> div 10 + 48)) \<and>
      F ! 23 = word_of_int (\<lfloor>r\<rfloor> mod 10 + 48) \<and>
      byte_of_char CHR ''0'' \<le> F ! 23 \<and> F ! 23 \<le> byte_of_char CHR ''9''"
proof -
  define w where "w = \<lfloor>r\<rfloor>"
  have w: "int_of_float (Finite r) = Some w" "0 \<le> w" "w < 100"
    using int_of_float_in_range [OF assms(2,3)] by (simp_all add: w_def)
  have x: "XXX = humidity_frame (XXX ! 22) (XXX ! 23) (XXX ! 28)"
    using assms(1) by (rule humidity_shape)
  note d = digits_of_whole [OF w(2,3)]
  have k: "0 \<le> w div 10" "w div 10 < 10"
    using w(2,3) by simp_all
  define F where "F = humidity_frame
                (blank_zero (word_of_int (w div 10 + 48)))
                (word_of_int (w mod 10 + 48))
                (124 + blank_zero (word_of_int (w div 10 + 48)) + word_of_int (w mod 10 + 48))"
  have p: "UpdateHumidity_patch (Finite r) XXX = Some F"
    using UpdateHumidity_patch_frame [OF w(1), of "XXX ! 22" "XXX ! 23" "XXX ! 28"]
    unfolding d x [symmetric] F_def .
  have n: "F ! 22 = blank_zero (word_of_int (w div 10 + 48))"
    "F ! 23 = word_of_int (w mod 10 + 48)"
    by (simp_all add: F_def humidity_frame_def)
  have r1: "(0x30 :: byte) \<le> word_of_int (w mod 10 + 48) \<and> (word_of_int (w mod 10 + 48) :: byte) \<le> 0x39"
    using digit_byte_range [OF w(2)] d(2) by simp
  have n22: "F ! 22 = (if w div 10 = 0 then byte_of_char CHR '' ''
                else word_of_int (w div 10 + 48))"
    by (simp only: n(1) tens_byte [OF k])
  show ?thesis
    unfolding w_def [symmetric]
    using p r1 n22 n(2) by (intro exI [of _ F]) (simp add: byte_of_char_def)
qed

text \<open>
  Claim C7 gives the digits of 7.83 as \<^verbatim>\<open>' '\<close>, \<^verbatim>\<open>'7'\<close>, \<^verbatim>\<open>'3'\<close>. The sketch
  computes the tenths digit as \<^verbatim>\<open>(int)(deg * 10) % 10\<close>, which is 78 % 10 = 8: the
  three bytes are not those of the claim.
\<close>

theorem tenths_of_7_83_counterexample:
  "map_option (\<lambda>F. (F ! 23, F ! 24, F ! 26))
      (UpdateTemperature_patch (float_of_rat 7.83) UpdateTemperature_XXX_init)
     \<noteq> Some (byte_of_char CHR '' '', byte_of_char CHR ''7'', byte_of_char CHR ''3'')"
  unfolding patch_7_83 by (simp add: temperature_frame_def byte_of_char_def)

text \<open>
  Claim C7, amended. For a value in the intended range (0 up to, not including, 100) the
  digits are taken by truncation: the tens byte is a space when the tens digit of the
  integer part is 0 and that digit otherwise, the ones byte is the ones digit of the
  integer part, and the tenths byte is the last digit of \<^verbatim>\<open>(int)(deg * 10)\<close>; ones and
  tenths are always digits. Humidity has the same tens and ones bytes and no tenths.
  7.83 gives \<^verbatim>\<open>' '\<close>, \<^verbatim>\<open>'7'\<close>, \<^verbatim>\<open>'8'\<close>; 23.05 gives \<^verbatim>\<open>'2'\<close>, \<^verbatim>\<open>'3'\<close>,
  \<^verbatim>\<open>'0'\<close>; humidity 45.0 gives \<^verbatim>\<open>'4'\<close>, \<^verbatim>\<open>'5'\<close>; humidity 5.0 gives
  \<^verbatim>\<open>' '\<close>, \<^verbatim>\<open>'5'\<close>.
\<close>

theorem digit_rendering:
  "(buffers_ok s \<and> 0 \<le> r \<and> r < 100 \<longrightarrow>
      (\<exists>F. UpdateTemperature_patch (Finite r) (UpdateTemperature_XXX s) = Some F \<and>
         F ! 23 = (if \<lfloor>r\<rfloor> div 10 = 0 then byte_of_char CHR '' ''
                   else word_of_int (\<lfloor>r\<rfloor> div 10 + 48)) \<and>
         F ! 24 = word_of_int (\<lfloor>r\<rfloor> mod 10 + 48) \<and>
         F ! 26 = word_of_int (\<lfloor>round_single (r * 10)\<rfloor> mod 10 + 48) \<and>
         byte_of_char CHR ''0'' \<le> F ! 24 \<and> F ! 24 \<le> byte_of_char CHR ''9'' \<and>
         byte_of_char CHR ''0'' \<le> F ! 26 \<and> F ! 26 \<le> byte_of_char CHR ''9'') \<and>
      (\<exists>F. UpdateHumidity_patch (Finite r) (UpdateHumidity_XXX s) = Some F \<and>
         F ! 22 = (if \<lfloor>r\<rfloor> div 10 = 0 then byte_of_char CHR '' ''
                   else word_of_int (\<lfloor>r\<rfloor> div 10 + 48)) \<and>
         F ! 23 = word_of_int (\<lfloor>r\<rfloor> mod 10 + 48) \<and>
         byte_of_char CHR ''0'' \<le> F ! 23 \<and> F ! 23 \<le> byte_of_char CHR ''9'')) \<and>
   map_option (\<lambda>F. (F ! 23, F ! 24, F ! 26))
      (UpdateTemperature_patch (float_of_rat 7.83) UpdateTemperature_XXX_init)
     = Some (byte_of_char CHR '' '', byte_of_char CHR ''7'', byte_of_char CHR ''8'') \<and>
   map_option (\<lambda>F. (F ! 23, F ! 24, F ! 26))
      (UpdateTemperature_patch (float_of_rat 23.05) UpdateTemperature_XXX_init)
     = Some (byte_of_char CHR ''2'', byte_of_char CHR ''3'', byte_of_char CHR ''0'') \<and>
   map_option (\<lambda>F. (F ! 22, F ! 23))
      (UpdateHumidity_patch (float_of_rat 45.0) UpdateHumidity_XXX_init)
     = Some (byte_of_char CHR ''4'', byte_of_char CHR ''5'') \<and>
   map_option (\<lambda>F. (F ! 22, F ! 23))
      (UpdateHumidity_patch (float_of_rat 5.0) UpdateHumidity_XXX_init)
     = Some (byte_of_char CHR '' '', byte_of_char CHR ''5'')"
proof (intro conjI impI)
  assume a: "buffers_ok s \<and> 0 \<le> r \<and> r < 100"
  then show "\<exists>F. UpdateTemperature_patch (Finite r) (UpdateTemperature_XXX s) = Some F \<and>
         F ! 23 = (if \<lfloor>r\<rfloor> div 10 = 0 then byte_of_char CHR '' ''
                   else word_of_int (\<lfloor>r\<rfloor> div 10 + 48)) \<and>
         F ! 24 = word_of_int (\<lfloor>r\<rfloor> mod 10 + 48) \<and>
         F ! 26 = word_of_int (\<lfloor>round_single (r * 10)\<rfloor> mod 10 + 48) \<and>
         byte_of_char CHR ''0'' \<le> F ! 24 \<and> F ! 24 \<le> byte_of_char CHR ''9'' \<and>
         byte_of_char CHR ''0'' \<le> F ! 26 \<and> F ! 26 \<le> byte_of_char CHR ''9''"
    by (intro temperature_digits) (simp_all add: buffers_ok_def)
  from a show "\<exists>F. UpdateHumidity_patch (Finite r) (UpdateHumidity_XXX s) = Some F \<and>
         F ! 22 = (if \<lfloor>r\<rfloor> div 10 = 0 then byte_of_char CHR '' ''
                   else word_of_int (\<lfloor>r\<rfloor> div 10 + 48)) \<and>
         F ! 23 = word_of_int (\<lfloor>r\<rfloor> mod 10 + 48) \<and>
         byte_of_char CHR ''0'' \<le> F ! 23 \<and> F ! 23 \<le> byte_of_char CHR ''9''"
    by (intro humidity_digits) (simp_all add: buffers_ok_def)
next
  show "map_option (\<lambda>F. (F ! 23, F ! 24, F ! 26))
      (UpdateTemperature_patch (float_of_rat 7.83) UpdateTemperature_XXX_init)
     = Some (byte_of_char CHR '' '', byte_of_char CHR ''7'', byte_of_char CHR ''8'')"
    unfolding patch_7_83 by (simp add: temperature_frame_def byte_of_char_def)
  show "map_option (\<lambda>F. (F ! 23, F ! 24, F ! 26))
      (UpdateTemperature_patch (float_of_rat 23.05) UpdateTemperature_XXX_init)
     = Some (byte_of_char CHR ''2'', byte_of_char CHR ''3'', byte_of_char CHR ''0'')"
    unfolding patch_23_05 by (simp add: temperature_frame_def byte_of_char_def)
  show "map_option (\<lambda>F. (F ! 22, F ! 23))
      (UpdateHumidity_patch (float_of_rat 45.0) UpdateHumidity_XXX_init)
     = Some (byte_of_char CHR ''4'', byte_of_char CHR ''5'')"
    unfolding patch_45 by (simp add: humidity_frame_def byte_of_char_def)
  show "map_option (\<lambda>F. (F ! 22, F ! 23))
      (UpdateHumidity_patch (float_of_rat 5.0) UpdateHumidity_XXX_init)
     = Some (byte_of_char CHR '' '', byte_of_char CHR ''5'')"
    unfolding patch_5 by (simp add: humidity_frame_def byte_of_char_def)
qed

theorem digit_rendering_witness:
  "buffers_ok (power_on []) \<and> (0 :: rat) \<le> 7 \<and> (7 :: rat) < 100 \<and>
   (\<exists>F. UpdateTemperature_patch (Finite 7) (UpdateTemperature_XXX (power_on [])) = Some F \<and>
      F ! 23 = byte_of_char CHR '' '' \<and> F ! 24 = byte_of_char CHR ''7'') \<and>
   (\<exists>F. UpdateHumidity_patch (Finite 7) (UpdateHumidity_XXX (power_on [])) = Some F \<and>
      F ! 22 = byte_of_char CHR '' '' \<and> F ! 23 = byte_of_char CHR ''7'')"
proof -
  have b: "buffers_ok (power_on [])"
    by (rule buffers_ok_power_on)
  have r: "(0 :: rat) \<le> 7" "(7 :: rat) < 100"
    by simp_all
  have f: "\<lfloor>7 :: rat\<rfloor> div 10 = 0" "(word_of_int (\<lfloor>7 :: rat\<rfloor> mod 10 + 48) :: byte) = byte_of_char CHR ''7''"
    by (simp_all add: byte_of_char_def)
  from digit_rendering [of "power_on []" 7] b r
  obtain F G where
    "UpdateTemperature_patch (Finite 7) (UpdateTemperature_XXX (power_on [])) = Some F"
    "F ! 23 = (if \<lfloor>7 :: rat\<rfloor> div 10 = 0 then byte_of_char CHR '' ''
                   else word_of_int (\<lfloor>7 :: rat\<rfloor> div 10 + 48))"
    "F ! 24 = word_of_int (\<lfloor>7 :: rat\<rfloor> mod 10 + 48)"
    "UpdateHumidity_patch (Finite 7) (UpdateHumidity_XXX (power_on [])) = Some G"
    "G ! 22 = (if \<lfloor>7 :: rat\<rfloor> div 10 = 0 then byte_of_char CHR '' ''
                   else word_of_int (\<lfloor>7 :: rat\<rfloor> div 10 + 48))"
    "G ! 23 = word_of_int (\<lfloor>7 :: rat\<rfloor> mod 10 + 48)"
    by blast
  with b r show ?thesis
    unfolding f by (intro conjI exI [of _ F] exI [of _ G]) simp_all
qed

end
